theory Spec2Isabelle
  imports Main "HOL-Library.Extended_Nat"
begin

section \<open>Data model\<close>

text \<open>
  The wave is a numpy boolean array of shape \<open>(N, W, H)\<close>; it is embedded as a nested
  list indexed \<open>wave ! p ! x ! y\<close>.  A numpy array is rectangular, which a nested list
  need not be: \<open>is_wave\<close> says that a nested list is an array of the given shape.
\<close>

type_synonym wave = "bool list list list"

datatype error = Contradiction | IndexError | ValueError | TypeError | UnboundLocalError

definition is_plane :: "nat \<Rightarrow> nat \<Rightarrow> bool list list \<Rightarrow> bool" where
  "is_plane w h m \<longleftrightarrow> length m = w \<and> (\<forall>c \<in> set m. length c = h)"

definition is_wave :: "nat \<Rightarrow> nat \<Rightarrow> nat \<Rightarrow> wave \<Rightarrow> bool" where
  "is_wave n w h wave \<longleftrightarrow> length wave = n \<and> (\<forall>m \<in> set wave. is_plane w h m)"

text \<open>\<open>wave.sum()\<close>: the number of true entries.\<close>

definition count_col :: "bool list \<Rightarrow> nat" where
  "count_col c = length (filter id c)"

definition count_plane :: "bool list list \<Rightarrow> nat" where
  "count_plane m = sum_list (map count_col m)"

definition total_count :: "wave \<Rightarrow> nat" where
  "total_count wave = sum_list (map count_plane wave)"

text \<open>\<open>wave[:, x, y]\<close> and the number of true patterns of one cell.\<close>

definition cell :: "wave \<Rightarrow> nat \<Rightarrow> nat \<Rightarrow> bool list" where
  "cell wave x y = map (\<lambda>m. m ! x ! y) wave"

definition count_at :: "wave \<Rightarrow> nat \<Rightarrow> nat \<Rightarrow> nat" where
  "count_at wave x y = count_col (cell wave x y)"

section \<open>makeWave\<close>

text \<open>
  \<open>numpy.ones((n, w, h), dtype=bool)\<close>, then with a ground index the two slice
  assignments \<open>wave[:, :, h-1] = 0\<close> and \<open>wave[ground, :, h-1] = 1\<close>.  The ground index
  is a Python integer: numpy accepts \<open>-n \<le> ground < n\<close>, a negative one counting from the
  end, and raises IndexError otherwise.  With \<open>h = 0\<close> the index \<open>h - 1 = -1\<close> is out of
  bounds for the empty axis.  The \<open>print\<close> of the source is not modelled.
\<close>

definition ones :: "nat \<Rightarrow> nat \<Rightarrow> nat \<Rightarrow> wave" where
  "ones n w h = replicate n (replicate w (replicate h True))"

definition set_row :: "nat \<Rightarrow> bool \<Rightarrow> bool list list \<Rightarrow> bool list list" where
  "set_row y b m = map (\<lambda>c. c[y := b]) m"

definition makeWave :: "nat \<Rightarrow> nat \<Rightarrow> nat \<Rightarrow> int option \<Rightarrow> error + wave" where
  "makeWave n w h ground =
     (let wave = ones n w h in
      case ground of
        None \<Rightarrow> Inr wave
      | Some g \<Rightarrow>
          if h = 0 then Inl IndexError
          else
            let wave = map (set_row (h - 1) False) wave in
            if g < - int n \<or> int n \<le> g then Inl IndexError
            else
              let p = nat (if g < 0 then int n + g else g) in
              Inr (wave[p := set_row (h - 1) True (wave ! p)]))"

section \<open>makeAdj\<close>

text \<open>
  \<open>adjLists\<close> is a dict from a direction \<open>(dx, dy)\<close> to a list whose entry \<open>i\<close> lists the
  patterns allowed next to pattern \<open>i\<close>; it is embedded as an association list in
  insertion order (the keys of a dict are distinct).  The number of patterns is the
  length of the first value; \<open>list(adjLists.values())[0]\<close> raises IndexError on an empty
  dict.  Every matrix is \<open>numpy.zeros((num_patterns, num_patterns))\<close> and the only other
  failure is the IndexError of the assignment \<open>m[i, j] = 1\<close>, raised when \<open>i\<close> is not
  below \<open>num_patterns\<close> or \<open>j\<close> is not in \<open>[-num_patterns, num_patterns)\<close>.  The \<open>print\<close>
  of the source is not modelled.
\<close>

type_synonym direction = "int \<times> int"
type_synonym matrix = "bool list list"
type_synonym adj = "(direction \<times> matrix) list"
type_synonym adjLists = "(direction \<times> int list list) list"

definition zeros :: "nat \<Rightarrow> nat \<Rightarrow> matrix" where
  "zeros r c = replicate r (replicate c False)"

fun fill_js :: "nat \<Rightarrow> nat \<Rightarrow> int list \<Rightarrow> matrix \<Rightarrow> error + matrix" where
  "fill_js np i [] m = Inr m"
| "fill_js np i (j # js) m =
     (if np \<le> i \<or> j < - int np \<or> int np \<le> j then Inl IndexError
      else fill_js np i js
             (m[i := (m ! i)[nat (if j < 0 then int np + j else j) := True]]))"

fun fill_rows :: "nat \<Rightarrow> nat \<Rightarrow> int list list \<Rightarrow> matrix \<Rightarrow> error + matrix" where
  "fill_rows np i [] m = Inr m"
| "fill_rows np i (js # rows) m =
     (case fill_js np i js m of
        Inl e \<Rightarrow> Inl e
      | Inr m' \<Rightarrow> fill_rows np (Suc i) rows m')"

fun build_all :: "nat \<Rightarrow> adjLists \<Rightarrow> error + adj" where
  "build_all np [] = Inr []"
| "build_all np ((d, rows) # rest) =
     (case fill_rows np 0 rows (zeros np np) of
        Inl e \<Rightarrow> Inl e
      | Inr m \<Rightarrow>
          (case build_all np rest of
             Inl e \<Rightarrow> Inl e
           | Inr ms \<Rightarrow> Inr ((d, m) # ms)))"

definition makeAdj :: "adjLists \<Rightarrow> error + adj" where
  "makeAdj adjLists =
     (case adjLists of
        [] \<Rightarrow> Inl IndexError
      | (d, rows) # rest \<Rightarrow> build_all (length rows) adjLists)"

text \<open>
  The two conditions of the specification's sentence about \<open>build\<close>: the per-direction
  lists disagree on the number of patterns, and a listed index is outside \<open>[0, N)\<close>,
  \<open>N\<close> being the number of patterns.
\<close>

definition lists_disagree :: "adjLists \<Rightarrow> bool" where
  "lists_disagree adjLists \<longleftrightarrow>
     (\<exists>a \<in> set adjLists. \<exists>b \<in> set adjLists. length (snd a) \<noteq> length (snd b))"

definition index_outside :: "nat \<Rightarrow> adjLists \<Rightarrow> bool" where
  "index_outside n adjLists \<longleftrightarrow>
     (\<exists>a \<in> set adjLists. \<exists>js \<in> set (snd a). \<exists>j \<in> set js. j < 0 \<or> int n \<le> j)"

text \<open>What the assignment \<open>m[i, j] = 1\<close> rejects, for the row \<open>i\<close> with its list \<open>js\<close>.\<close>

definition bad_row :: "nat \<Rightarrow> nat \<Rightarrow> int list \<Rightarrow> bool" where
  "bad_row np i js \<longleftrightarrow> (\<exists>j \<in> set js. np \<le> i \<or> j < - int np \<or> int np \<le> j)"

definition bad_lists :: "nat \<Rightarrow> adjLists \<Rightarrow> bool" where
  "bad_lists np adjLists \<longleftrightarrow>
     (\<exists>a \<in> set adjLists. \<exists>r \<in> set (List.enumerate 0 (snd a)). bad_row np (fst r) (snd r))"

section \<open>propagate\<close>

text \<open>
  The shape of the array: \<open>wave.shape[1]\<close> and \<open>wave.shape[2]\<close>.  A nested list without
  planes, or without rows, has lost the lengths of the inner axes: the list without
  planes is read as an array with \<open>N = 0\<close> whose other axes are not empty, and the
  theorems that depend on the lengths of the axes are about arrays with \<open>N\<close>, \<open>W\<close> and
  \<open>H\<close> positive.
\<close>

definition shape1 :: "wave \<Rightarrow> nat" where
  "shape1 wave = (case wave of [] \<Rightarrow> 0 | m # _ \<Rightarrow> length m)"

definition shape2 :: "wave \<Rightarrow> nat" where
  "shape2 wave = (case wave of [] \<Rightarrow> 0 | m # _ \<Rightarrow> (case m of [] \<Rightarrow> 0 | c # _ \<Rightarrow> length c))"

definition empty_axis :: "wave \<Rightarrow> bool" where
  "empty_axis wave \<longleftrightarrow> wave \<noteq> [] \<and> (shape1 wave = 0 \<or> shape2 wave = 0)"

text \<open>
  \<open>numpy.pad(wave, ((0,0),(1,1),(1,1)), ...)\<close>: one cell is added on each side of the
  second and third axis, a copy of the opposite border with \<open>mode='wrap'\<close> and the
  constant \<open>True\<close> otherwise.  numpy refuses to wrap an empty axis (\<open>empty_axis\<close>).
\<close>

definition pad_col :: "bool \<Rightarrow> bool list \<Rightarrow> bool list" where
  "pad_col periodic c = (if periodic then last c # c @ [hd c] else True # c @ [True])"

definition pad_plane :: "bool \<Rightarrow> nat \<Rightarrow> bool list list \<Rightarrow> bool list list" where
  "pad_plane periodic h m =
     (let rows = map (pad_col periodic) m in
      if periodic then last rows # rows @ [hd rows]
      else replicate (h + 2) True # rows @ [replicate (h + 2) True])"

definition pad :: "bool \<Rightarrow> wave \<Rightarrow> wave" where
  "pad periodic wave = map (pad_plane periodic (shape2 wave)) wave"

text \<open>
  A Python slice \<open>xs[start:stop]\<close> of a sequence: a negative bound counts from the end,
  and both bounds are clipped to the sequence.  \<open>slice_len\<close> is the length of the slice
  of a sequence of the given length.
\<close>

definition clip :: "int \<Rightarrow> nat \<Rightarrow> nat" where
  "clip i len = (if i < 0 then nat (i + int len) else min (nat i) len)"

definition slice_len :: "nat \<Rightarrow> int \<Rightarrow> int \<Rightarrow> nat" where
  "slice_len len start stop = clip stop len - clip start len"

definition py_slice :: "'a list \<Rightarrow> int \<Rightarrow> int \<Rightarrow> 'a list" where
  "py_slice xs start stop =
     take (slice_len (length xs) start stop) (drop (clip start (length xs)) xs)"

text \<open>
  \<open>padded[:, 1+dx : 1+wave.shape[1]+dx, 1+dy : 1+wave.shape[2]+dy]\<close>, for any offset.
\<close>

definition shifted :: "wave \<Rightarrow> nat \<Rightarrow> nat \<Rightarrow> direction \<Rightarrow> wave" where
  "shifted padded w h d =
     map (\<lambda>m. map (\<lambda>c. py_slice c (1 + snd d) (1 + int h + snd d))
                 (py_slice m (1 + fst d) (1 + int w + fst d)))
       padded"

text \<open>
  numpy broadcasting: an axis of length one is repeated to the length of the axis it
  meets.  \<open>bdim\<close> is the common length of two axes that einsum sums over together,
  \<open>bcast\<close> repeats the single element of a list where its length differs from the one
  wanted.
\<close>

definition bdim :: "nat \<Rightarrow> nat \<Rightarrow> nat option" where
  "bdim a b = (if a = b then Some a else if a = 1 then Some b else if b = 1 then Some a else None)"

definition bcast :: "nat \<Rightarrow> 'a list \<Rightarrow> 'a list" where
  "bcast n xs = (if length xs = n then xs else replicate n (hd xs))"

text \<open>The number of columns of a matrix; \<open>makeAdj\<close> builds the matrix without rows as
  \<open>numpy.zeros((0, 0))\<close>.\<close>

definition ncols :: "matrix \<Rightarrow> nat" where
  "ncols m = (case m of [] \<Rightarrow> 0 | r # _ \<Rightarrow> length r)"

text \<open>
  \<open>numpy.einsum('pwh,pq->qwh', shifted, adj[d]) > 0\<close>: pattern \<open>q\<close> is supported at a
  cell when some pattern \<open>p\<close> of the shifted cell has \<open>adj[d][p][q]\<close>.  The result is an
  array of shape \<open>(Q, W', H')\<close>, with \<open>Q\<close> the number of columns of the matrix and \<open>W'\<close>,
  \<open>H'\<close> the lengths of the two slices; it is kept with its shape.  einsum raises
  ValueError when the numbers of planes and of matrix rows differ and neither is one.
\<close>

type_synonym shaped = "(nat \<times> nat \<times> nat) \<times> wave"

definition or_plane :: "bool list list \<Rightarrow> bool list list \<Rightarrow> bool list list" where
  "or_plane a b = map2 (map2 (\<or>)) a b"

definition support :: "nat \<Rightarrow> nat \<Rightarrow> nat \<Rightarrow> wave \<Rightarrow> matrix \<Rightarrow> wave" where
  "support w h k sh m =
     map (\<lambda>q. foldr or_plane (map fst (filter (\<lambda>pr. snd pr ! q) (zip (bcast k sh) (bcast k m))))
                 (replicate w (replicate h False)))
       [0..<ncols m]"

definition einsum :: "nat \<Rightarrow> nat \<Rightarrow> wave \<Rightarrow> matrix \<Rightarrow> error + shaped" where
  "einsum w h sh m =
     (case bdim (length sh) (length m) of
        None \<Rightarrow> Inl ValueError
      | Some k \<Rightarrow> Inr ((ncols m, w, h), support w h k sh m))"

text \<open>
  \<open>wave *= supports[d]\<close>: the entrywise conjunction, in place.  The support is broadcast
  to the shape of the wave: each of its axes has the length of the wave's axis or the
  length one (\<open>bc_ok\<close>); otherwise numpy raises ValueError and the wave stays as it is.
\<close>

definition bc_ok :: "nat \<times> nat \<times> nat \<Rightarrow> nat \<times> nat \<times> nat \<Rightarrow> bool" where
  "bc_ok dims sdims \<longleftrightarrow>
     (case dims of (n, w, h) \<Rightarrow> case sdims of (q, w', h') \<Rightarrow>
        (q = n \<or> q = 1) \<and> (w' = w \<or> w' = 1) \<and> (h' = h \<or> h' = 1))"

definition mul_col :: "nat \<Rightarrow> bool list \<Rightarrow> bool list \<Rightarrow> bool list" where
  "mul_col h c sc = map2 (\<and>) c (bcast h sc)"

definition mul_plane :: "nat \<Rightarrow> nat \<Rightarrow> bool list list \<Rightarrow> bool list list \<Rightarrow> bool list list" where
  "mul_plane w h m sm = map2 (mul_col h) m (bcast w sm)"

definition mul :: "wave \<Rightarrow> wave \<Rightarrow> wave" where
  "mul wave s = map2 (mul_plane (shape1 wave) (shape2 wave)) wave (bcast (length wave) s)"

fun multiply_all :: "wave \<Rightarrow> shaped list \<Rightarrow> error option \<times> wave" where
  "multiply_all wave [] = (None, wave)"
| "multiply_all wave (s # ss) =
     (if bc_ok (length wave, shape1 wave, shape2 wave) (fst s)
      then multiply_all (mul wave (snd s)) ss
      else (Some ValueError, wave))"

text \<open>
  One pass of the \<open>while\<close> body: the padding, then all supports, computed from the same
  padded array (the first failure ends the pass before the wave is touched), then the
  multiplications, one direction after the other.  The result is the exception raised,
  if any, and the content of the array after the pass; \<open>sweep\<close> is that content.
\<close>

fun collect :: "(error + 'a) list \<Rightarrow> error + 'a list" where
  "collect [] = Inr []"
| "collect (Inl e # rs) = Inl e"
| "collect (Inr x # rs) = (case collect rs of Inl e \<Rightarrow> Inl e | Inr xs \<Rightarrow> Inr (x # xs))"

definition pass :: "wave \<Rightarrow> adj \<Rightarrow> bool \<Rightarrow> error option \<times> wave" where
  "pass wave adj periodic =
     (if periodic \<and> empty_axis wave then (Some ValueError, wave)
      else
        let padded = pad periodic wave;
            w = shape1 wave;
            h = shape2 wave;
            supports = collect (map (\<lambda>dm.
                einsum (slice_len (w + 2) (1 + fst (fst dm)) (1 + int w + fst (fst dm)))
                       (slice_len (h + 2) (1 + snd (fst dm)) (1 + int h + snd (fst dm)))
                       (shifted padded w h (fst dm)) (snd dm)) adj)
        in case supports of
             Inl e \<Rightarrow> (Some e, wave)
           | Inr ss \<Rightarrow> multiply_all wave ss)"

definition sweep :: "wave \<Rightarrow> adj \<Rightarrow> bool \<Rightarrow> wave" where
  "sweep wave adj periodic = snd (pass wave adj periodic)"

text \<open>
  The adjacency models of the specification for a wave of \<open>N\<close> patterns: offsets in
  \<open>{-1, 0, 1}\<close> and matrices of shape \<open>(N, N)\<close>, as \<open>makeAdj\<close> builds them for cardinal and
  diagonal directions.
\<close>

definition adj_fits :: "nat \<Rightarrow> adj \<Rightarrow> bool" where
  "adj_fits n adj \<longleftrightarrow>
     list_all (\<lambda>dm. fst (fst dm) \<in> {- 1, 0, 1} \<and> snd (fst dm) \<in> {- 1, 0, 1} \<and>
                    length (snd dm) = n \<and> list_all (\<lambda>row. length row = n) (snd dm)) adj"

text \<open>A pass of the loop never increases the number of true entries.\<close>

lemma sum_list_zip_le:
  assumes "\<And>x y. f x y \<le> (g x :: nat)"
  shows "sum_list (map (\<lambda>(x, y). f x y) (zip xs ys)) \<le> sum_list (map g xs)"
proof (induction xs arbitrary: ys)
  case Nil
  then show ?case by simp
next
  case (Cons x xs)
  show ?case
  proof (cases ys)
    case Nil
    then show ?thesis by simp
  next
    case (Cons y ys')
    then show ?thesis using Cons.IH [of ys'] assms [of x y] by (simp add: add_mono)
  qed
qed

lemma count_col_and_le: "count_col (map2 (\<and>) c s) \<le> count_col c"
proof (induction c arbitrary: s)
  case Nil
  then show ?case by (simp add: count_col_def)
next
  case (Cons b c)
  show ?case
  proof (cases s)
    case Nil
    then show ?thesis by (simp add: count_col_def)
  next
    case (Cons b' s')
    then show ?thesis using Cons.IH [of s'] by (simp add: count_col_def le_SucI)
  qed
qed

lemma count_plane_mul_le: "count_plane (mul_plane w h m sm) \<le> count_plane m"
proof -
  have "count_plane (mul_plane w h m sm) =
          sum_list (map (\<lambda>(c, sc). count_col (mul_col h c sc)) (zip m (bcast w sm)))"
    by (simp add: count_plane_def mul_plane_def comp_def case_prod_unfold)
  also have "\<dots> \<le> sum_list (map count_col m)"
    by (rule sum_list_zip_le) (simp add: mul_col_def count_col_and_le)
  finally show ?thesis by (simp add: count_plane_def)
qed

lemma total_count_mul_le: "total_count (mul wave s) \<le> total_count wave"
proof -
  have "total_count (mul wave s) =
          sum_list (map (\<lambda>(m, sm). count_plane (mul_plane (shape1 wave) (shape2 wave) m sm))
                     (zip wave (bcast (length wave) s)))"
    by (simp add: total_count_def mul_def comp_def case_prod_unfold)
  also have "\<dots> \<le> sum_list (map count_plane wave)"
    by (rule sum_list_zip_le) (rule count_plane_mul_le)
  finally show ?thesis by (simp add: total_count_def)
qed

lemma total_count_multiply_all_le:
  "total_count (snd (multiply_all wave ss)) \<le> total_count wave"
proof (induction ss arbitrary: wave)
  case Nil
  then show ?case by simp
next
  case (Cons s ss)
  show ?case
  proof (cases "bc_ok (length wave, shape1 wave, shape2 wave) (fst s)")
    case True
    have "total_count (snd (multiply_all (mul wave (snd s)) ss)) \<le> total_count (mul wave (snd s))"
      by (rule Cons.IH)
    then show ?thesis using True total_count_mul_le [of wave "snd s"] by simp
  next
    case False
    then show ?thesis by simp
  qed
qed

lemma total_count_sweep_le: "total_count (sweep wave adj periodic) \<le> total_count wave"
  by (simp add: sweep_def pass_def Let_def total_count_multiply_all_le split: sum.splits)

text \<open>
  The \<open>while True\<close> loop of \<open>propagate\<close>, with the variable \<open>last_count\<close>; an exception
  raised by a pass ends it.  Otherwise it ends by itself: a pass never adds a true
  entry, so the count either drops or equals \<open>last_count\<close> after at most one more pass.
\<close>

function tighten :: "wave \<Rightarrow> nat \<Rightarrow> adj \<Rightarrow> bool \<Rightarrow> error option \<times> wave" where
  "tighten wave last_count adj periodic =
     (if fst (pass wave adj periodic) \<noteq> None then pass wave adj periodic
      else if total_count (sweep wave adj periodic) = last_count then pass wave adj periodic
      else tighten (sweep wave adj periodic) (total_count (sweep wave adj periodic)) adj periodic)"
  by pat_completeness auto
termination
proof (relation "measure (\<lambda>(wave, last_count, adj, periodic).
          2 * total_count wave + (if last_count = total_count wave then 0 else 1))")
  show "wf (measure (\<lambda>(wave, last_count, adj, periodic).
          2 * total_count wave + (if last_count = total_count wave then 0 else 1)))"
    by simp
next
  fix wave :: wave and last_count :: nat and adj :: adj and periodic :: bool
  assume "total_count (sweep wave adj periodic) \<noteq> last_count"
  then show "((sweep wave adj periodic, total_count (sweep wave adj periodic), adj, periodic),
              (wave, last_count, adj, periodic))
      \<in> measure (\<lambda>(wave, last_count, adj, periodic).
          2 * total_count wave + (if last_count = total_count wave then 0 else 1))"
    using total_count_sweep_le [of wave adj periodic] by auto
qed

declare tighten.simps [simp del]

text \<open>
  \<open>propagate\<close> mutates the array in place and returns nothing; the embedding returns the
  exception raised, if any, and the content of the array afterwards.  Contradiction is
  raised when \<open>wave.sum() == 0\<close> after the loop.
\<close>

definition propagate :: "wave \<Rightarrow> adj \<Rightarrow> bool \<Rightarrow> error option \<times> wave" where
  "propagate wave adj periodic =
     (let r = tighten wave (total_count wave) adj periodic in
      if fst r \<noteq> None then r
      else (if total_count (snd r) = 0 then Some Contradiction else None, snd r))"

text \<open>The entrywise order on arrays of one shape: no entry is true on the left and false
  on the right.\<close>

definition le_wave :: "nat \<Rightarrow> nat \<Rightarrow> nat \<Rightarrow> wave \<Rightarrow> wave \<Rightarrow> bool" where
  "le_wave n w h a b \<longleftrightarrow> (\<forall>p<n. \<forall>x<w. \<forall>y<h. a ! p ! x ! y \<longrightarrow> b ! p ! x ! y)"

text \<open>The slice assignment \<open>wave[:, i, j] = b\<close> and the assignment \<open>wave[p, i, j] = b\<close>,
  for indices inside the array.\<close>

definition set_cell :: "wave \<Rightarrow> nat \<Rightarrow> nat \<Rightarrow> bool \<Rightarrow> wave" where
  "set_cell wave i j b = map (\<lambda>m. m[i := (m ! i)[j := b]]) wave"

definition set_entry :: "wave \<Rightarrow> nat \<Rightarrow> nat \<Rightarrow> nat \<Rightarrow> bool \<Rightarrow> wave" where
  "set_entry wave p i j b = wave[p := (wave ! p)[i := (wave ! p ! i)[j := b]]]"

section \<open>Heuristics and observe\<close>

text \<open>
  \<open>lexicalLocationHeuristic\<close>: \<open>numpy.count_nonzero(wave, axis=0)\<close> counts the patterns of
  every cell, a cell with more than one pattern weighs its count and every other cell
  \<open>numpy.inf\<close>, and \<open>numpy.argmin\<close> returns the first position of the least weight in
  row-major order, which \<open>numpy.unravel_index\<close> turns into \<open>(row, col)\<close>.  \<open>argmin\<close> of an
  empty array raises ValueError.
\<close>

definition count_nonzero0 :: "wave \<Rightarrow> nat list list" where
  "count_nonzero0 wave =
     map (\<lambda>x. map (\<lambda>y. count_at wave x y) [0..<shape2 wave]) [0..<shape1 wave]"

fun argmin_from :: "enat list \<Rightarrow> nat \<Rightarrow> nat \<Rightarrow> enat \<Rightarrow> nat" where
  "argmin_from [] i best v = best"
| "argmin_from (x # xs) i best v =
     (if x < v then argmin_from xs (Suc i) i x else argmin_from xs (Suc i) best v)"

definition argmin :: "enat list \<Rightarrow> error + nat" where
  "argmin xs = (case xs of [] \<Rightarrow> Inl ValueError | x # rest \<Rightarrow> Inr (argmin_from rest 1 0 x))"

definition lexicalLocationHeuristic :: "wave \<Rightarrow> error + nat \<times> nat" where
  "lexicalLocationHeuristic wave =
     (let cell_weights = map (map (\<lambda>c. if 1 < c then enat c else \<infinity>)) (count_nonzero0 wave)
      in case argmin (concat cell_weights) of
           Inl e \<Rightarrow> Inl e
         | Inr k \<Rightarrow> Inr (k div shape2 wave, k mod shape2 wave))"

text \<open>\<open>lexicalPatternHeuristic\<close>: \<open>numpy.nonzero(weights)[0][0]\<close>, the first true index;
  the index \<open>[0]\<close> into an empty result raises IndexError.\<close>

definition nonzero :: "bool list \<Rightarrow> nat list" where
  "nonzero ws = filter (\<lambda>i. ws ! i) [0..<length ws]"

definition lexicalPatternHeuristic :: "bool list \<Rightarrow> error + nat" where
  "lexicalPatternHeuristic weights =
     (case nonzero weights of [] \<Rightarrow> Inl IndexError | p # _ \<Rightarrow> Inr p)"

text \<open>
  \<open>observe\<close> calls the location heuristic, reads \<open>wave[:, i, j]\<close> (IndexError outside the
  array; the embedding takes the heuristic's indices as natural numbers) and calls the
  pattern heuristic on it.  A heuristic is any callable: it returns a value or raises.
\<close>

definition observe ::
  "wave \<Rightarrow> (wave \<Rightarrow> error + nat \<times> nat) \<Rightarrow> (bool list \<Rightarrow> error + nat) \<Rightarrow> error + nat \<times> nat \<times> nat" where
  "observe wave locationHeuristic patternHeuristic =
     (case locationHeuristic wave of
        Inl e \<Rightarrow> Inl e
      | Inr (i, j) \<Rightarrow>
          if shape1 wave \<le> i \<or> shape2 wave \<le> j then Inl IndexError
          else (case patternHeuristic (cell wave i j) of
                  Inl e \<Rightarrow> Inl e
                | Inr pattern \<Rightarrow> Inr (pattern, i, j)))"

text \<open>\<open>numpy.argmax(wave, 0)\<close>: for every cell the first true pattern, and 0 for a cell
  without a true pattern.\<close>

definition argmax0 :: "wave \<Rightarrow> nat list list" where
  "argmax0 wave =
     map (\<lambda>x. map (\<lambda>y. case nonzero (cell wave x y) of [] \<Rightarrow> 0 | p # _ \<Rightarrow> p) [0..<shape2 wave])
       [0..<shape1 wave]"

section \<open>run\<close>

text \<open>
  A hook is a Python callable.  It is embedded with a label, by which its calls are
  recognised in the trace, and its behaviour on a call: the exception it raises, or the
  truth value of what it returns.  Hooks are taken to leave the array they are given
  untouched and to answer the same call in the same way.

  The trace of a run lists the hook calls in order.  It also records three steps of
  the driver itself, which are no hook calls: \<open>Enter wave\<close> when a frame of \<open>run\<close> is
  entered with that array, \<open>Commit pattern i j\<close> when the frame reaches the two
  assignments that commit the choice, and \<open>Caught\<close> when the \<open>except Contradiction\<close> clause
  of a frame is entered.
\<close>

datatype call = CallWave wave | CallChoice nat nat nat | CallUnit

datatype hook = Hook (label: string) (behave: "call \<Rightarrow> error + bool")

datatype event = Called string call | Enter wave | Commit nat nat nat | Caught

type_synonym outcome = "(error + nat list list) \<times> wave \<times> event list"

datatype tried = Done outcome | Failed "(nat \<times> nat \<times> nat) option" wave "event list" | Stuck

text \<open>
  An exception raised inside the \<open>try\<close> block: Contradiction enters the \<open>except\<close> clause,
  with the names \<open>pattern, i, j\<close> bound or not; any other exception leaves the frame.
\<close>

definition raised :: "error \<Rightarrow> (nat \<times> nat \<times> nat) option \<Rightarrow> wave \<Rightarrow> event list \<Rightarrow> tried" where
  "raised e bound arr tr =
     (if e = Contradiction then Failed bound arr (tr @ [Caught]) else Done (Inl e, arr, tr))"

text \<open>
  The \<open>try\<close> block.  \<open>rec\<close> stands for the recursive call of \<open>run\<close> with the arguments
  that change: the array, \<open>onChoice\<close> and \<open>checkFeasible\<close>.  The recursive call of the
  \<open>try\<close> block passes seven positional arguments, so that both \<open>onChoice\<close> and
  \<open>checkFeasible\<close> are \<open>None\<close> in the frame it enters; it works on the same array
  object.  The result carries the content of the frame's array at the end.
\<close>

definition attempt ::
  "(wave \<Rightarrow> hook option \<Rightarrow> hook option \<Rightarrow> outcome option) \<Rightarrow> wave \<Rightarrow> adj \<Rightarrow>
   (wave \<Rightarrow> error + nat \<times> nat) \<Rightarrow> (bool list \<Rightarrow> error + nat) \<Rightarrow> bool \<Rightarrow> hook option \<Rightarrow>
   event list \<Rightarrow> tried" where
  "attempt rec wave adj locationHeuristic patternHeuristic periodic onChoice tr =
     (case observe wave locationHeuristic patternHeuristic of
        Inl e \<Rightarrow> raised e None wave tr
      | Inr (pattern, i, j) \<Rightarrow>
          let bound = Some (pattern, i, j);
              tr = (case onChoice of None \<Rightarrow> tr
                    | Some hk \<Rightarrow> tr @ [Called (label hk) (CallChoice pattern i j)])
          in case (case onChoice of None \<Rightarrow> Inr False
                   | Some hk \<Rightarrow> behave hk (CallChoice pattern i j)) of
               Inl e \<Rightarrow> raised e bound wave tr
             | Inr _ \<Rightarrow>
                 let tr = tr @ [Commit pattern i j];
                     wave = set_cell wave i j False
                 in if length wave \<le> pattern then raised IndexError bound wave tr
                    else
                      let wave = set_entry wave pattern i j True in
                      case propagate wave adj periodic of
                        (Some e, wave) \<Rightarrow> raised e bound wave tr
                      | (None, wave) \<Rightarrow>
                          if shape1 wave * shape2 wave < total_count wave then
                            (case rec wave None None of
                               None \<Rightarrow> Stuck
                             | Some (Inl e, arr, tr') \<Rightarrow> raised e bound arr (tr @ tr')
                             | Some (Inr grid, arr, tr') \<Rightarrow> Done (Inr grid, arr, tr @ tr'))
                          else Done (Inr (argmax0 wave), wave, tr))"

text \<open>
  The \<open>except Contradiction\<close> clause.  With backtracking, \<open>onBacktrack\<close> is called, the
  local name \<open>wave\<close> is rebound to the copy \<open>original\<close>, the failed choice is cleared in
  it (UnboundLocalError when the exception came before \<open>pattern, i, j\<close> were bound) and
  \<open>run\<close> is called with eight positional arguments, the eighth being \<open>checkFeasible\<close>:
  it arrives in the parameter \<open>onChoice\<close>, and \<open>checkFeasible\<close> is \<open>None\<close> in the frame
  entered.  The array the frame was given is not touched any more: \<open>arr\<close> is its content.
\<close>

definition handler ::
  "(wave \<Rightarrow> hook option \<Rightarrow> hook option \<Rightarrow> outcome option) \<Rightarrow> wave \<Rightarrow> bool \<Rightarrow> hook option \<Rightarrow>
   hook option \<Rightarrow> (nat \<times> nat \<times> nat) option \<Rightarrow> wave \<Rightarrow> event list \<Rightarrow> outcome option" where
  "handler rec original backtracking onBacktrack checkFeasible bound arr tr =
     (if backtracking then
        let tr = (case onBacktrack of None \<Rightarrow> tr | Some hk \<Rightarrow> tr @ [Called (label hk) CallUnit])
        in case (case onBacktrack of None \<Rightarrow> Inr False | Some hk \<Rightarrow> behave hk CallUnit) of
             Inl e \<Rightarrow> Some (Inl e, arr, tr)
           | Inr _ \<Rightarrow>
               (case bound of
                  None \<Rightarrow> Some (Inl UnboundLocalError, arr, tr)
                | Some (pattern, i, j) \<Rightarrow>
                    if length original \<le> pattern then Some (Inl IndexError, arr, tr)
                    else
                      (case rec (set_entry original pattern i j False) checkFeasible None of
                         None \<Rightarrow> None
                       | Some (res, arr', tr') \<Rightarrow> Some (res, arr, tr @ tr')))
      else Some (Inl Contradiction, arr, tr))"

text \<open>
  One frame of \<open>run\<close>: the feasibility check, the copy, the first \<open>propagate\<close>, which is
  outside the \<open>try\<close> block, and the \<open>try\<close> statement.
\<close>

definition frame ::
  "(wave \<Rightarrow> hook option \<Rightarrow> hook option \<Rightarrow> outcome option) \<Rightarrow> wave \<Rightarrow> adj \<Rightarrow>
   (wave \<Rightarrow> error + nat \<times> nat) \<Rightarrow> (bool list \<Rightarrow> error + nat) \<Rightarrow> bool \<Rightarrow> bool \<Rightarrow>
   hook option \<Rightarrow> hook option \<Rightarrow> hook option \<Rightarrow> outcome option" where
  "frame rec wave adj locationHeuristic patternHeuristic periodic backtracking
         onBacktrack onChoice checkFeasible =
     (let tr = (case checkFeasible of None \<Rightarrow> [Enter wave]
                | Some hk \<Rightarrow> [Enter wave, Called (label hk) (CallWave wave)])
      in case (case checkFeasible of None \<Rightarrow> Inr True
               | Some hk \<Rightarrow> behave hk (CallWave wave)) of
           Inl e \<Rightarrow> Some (Inl e, wave, tr)
         | Inr feasible \<Rightarrow>
             if \<not> feasible then Some (Inl Contradiction, wave, tr)
             else
               let original = wave in
               case propagate wave adj periodic of
                 (Some e, wave) \<Rightarrow> Some (Inl e, wave, tr)
               | (None, wave) \<Rightarrow>
                   (case attempt rec wave adj locationHeuristic patternHeuristic periodic
                           onChoice tr of
                      Done out \<Rightarrow> Some out
                    | Stuck \<Rightarrow> None
                    | Failed bound arr tr \<Rightarrow>
                        handler rec original backtracking onBacktrack checkFeasible bound arr tr))"

text \<open>
  \<open>run\<close> recurses without a bound of its own in the source; the embedding counts the
  frames it may still enter, and returns \<open>None\<close> when the count is used up.  The
  recursion limit of the Python interpreter is not modelled.
\<close>

fun run ::
  "nat \<Rightarrow> wave \<Rightarrow> adj \<Rightarrow> (wave \<Rightarrow> error + nat \<times> nat) \<Rightarrow> (bool list \<Rightarrow> error + nat) \<Rightarrow> bool \<Rightarrow> bool \<Rightarrow>
   hook option \<Rightarrow> hook option \<Rightarrow> hook option \<Rightarrow> outcome option" where
  "run 0 wave adj locationHeuristic patternHeuristic periodic backtracking
       onBacktrack onChoice checkFeasible = None"
| "run (Suc fuel) wave adj locationHeuristic patternHeuristic periodic backtracking
       onBacktrack onChoice checkFeasible =
     frame (\<lambda>wave onChoice checkFeasible.
              run fuel wave adj locationHeuristic patternHeuristic periodic backtracking
                onBacktrack onChoice checkFeasible)
       wave adj locationHeuristic patternHeuristic periodic backtracking
       onBacktrack onChoice checkFeasible"

text \<open>The calls of hooks in a trace.\<close>

definition is_called :: "event \<Rightarrow> bool" where
  "is_called ev = (case ev of Called name c \<Rightarrow> True | _ \<Rightarrow> False)"

definition hook_log :: "event list \<Rightarrow> event list" where
  "hook_log tr = filter is_called tr"

section \<open>The data of the source's tests\<close>

text \<open>
  \<open>test_propagate\<close> and \<open>test_run\<close> use three patterns: in all four cardinal directions
  pattern 0 may neighbour only pattern 1, pattern 1 only pattern 0 and pattern 2 only
  pattern 2.
\<close>

definition test_adjLists :: adjLists where
  "test_adjLists =
     [((1, 0), [[1], [0], [2]]), ((- 1, 0), [[1], [0], [2]]),
      ((0, 1), [[1], [0], [2]]), ((0, - 1), [[1], [0], [2]])]"

definition test_matrix :: matrix where
  "test_matrix = [[False, True, False], [True, False, False], [False, False, True]]"

definition test_adj :: adj where
  "test_adj = [((1, 0), test_matrix), ((- 1, 0), test_matrix),
               ((0, 1), test_matrix), ((0, - 1), test_matrix)]"

text \<open>The wave of \<open>test_propagate\<close>: all true, then \<open>wave[:,0,0] = False\<close> and
  \<open>wave[0,0,0] = True\<close>.\<close>

definition pinned_wave :: wave where
  "pinned_wave = set_entry (set_cell (ones 3 3 4) 0 0 False) 0 0 0 True"

text \<open>The hooks of \<open>test_run\<close> append to a list and return \<open>None\<close>.\<close>

definition log_hook :: "string \<Rightarrow> hook" where
  "log_hook name = Hook name (\<lambda>c. Inr False)"


section \<open>Properties of traces and hooks\<close>

text \<open>The calls in a trace that carry a given label.\<close>

definition calls_of :: "string \<Rightarrow> event list \<Rightarrow> event list" where
  "calls_of name tr = filter (\<lambda>ev. case ev of Called n c \<Rightarrow> n = name | _ \<Rightarrow> False) tr"

text \<open>
  The reading of ``the hook is invoked with the chosen \<open>(pattern, x, y)\<close> before every
  commit'': every \<open>Commit p i j\<close> of the trace comes directly after the call of the hook
  labelled \<open>name\<close> with \<open>(p, i, j)\<close>.
\<close>

fun announced :: "string \<Rightarrow> event list \<Rightarrow> bool" where
  "announced name [] = True"
| "announced name (Commit p i j # tr) = False"
| "announced name (Called n c # Commit p i j # tr) =
     (n = name \<and> c = CallChoice p i j \<and> announced name tr)"
| "announced name (ev # tr) = announced name tr"




definition is_commit :: "event \<Rightarrow> bool" where
  "is_commit ev = (case ev of Commit p i j \<Rightarrow> True | _ \<Rightarrow> False)"


definition quiet :: "hook option \<Rightarrow> bool" where
  "quiet ho \<longleftrightarrow> (case ho of None \<Rightarrow> True | Some hk \<Rightarrow> \<forall>c. behave hk c \<noteq> Inl Contradiction)"



text \<open>
  A hook that returns from every call, and the trace of a frame that caught a
  Contradiction: the frame was entered with the array content \<open>w0\<close>, which is what its
  copy \<open>original\<close> holds, it committed \<open>(p, i, j)\<close> after at most hook calls, and the
  \<open>except\<close> clause was entered later.  \<open>ends_with\<close> says that one trace is the end of
  another.
\<close>

definition calm :: "hook option \<Rightarrow> bool" where
  "calm ho \<longleftrightarrow> (case ho of None \<Rightarrow> True | Some hk \<Rightarrow> \<forall>c. \<exists>b. behave hk c = Inr b)"

definition caught_frame :: "wave \<Rightarrow> nat \<Rightarrow> nat \<Rightarrow> nat \<Rightarrow> event list \<Rightarrow> bool" where
  "caught_frame w0 p i j pre \<longleftrightarrow>
     (\<exists>a mid rest. pre = a @ Enter w0 # mid @ Commit p i j # rest \<and>
        (\<forall>e \<in> set mid. is_called e) \<and> Caught \<in> set rest)"

definition ends_with :: "event list \<Rightarrow> event list \<Rightarrow> bool" where
  "ends_with tr tr' \<longleftrightarrow> (\<exists>pre. tr = pre @ tr')"

text \<open>
  Two patterns that may neighbour each other and themselves in all four cardinal
  directions, and a feasibility hook as a Python function of one parameter,
  \<open>lambda wave: wave.sum() >= m\<close>: a call with another number of arguments raises
  TypeError.
\<close>

definition free_adjLists :: adjLists where
  "free_adjLists =
     [((1, 0), [[0, 1], [0, 1]]), ((- 1, 0), [[0, 1], [0, 1]]),
      ((0, 1), [[0, 1], [0, 1]]), ((0, - 1), [[0, 1], [0, 1]])]"

definition free_adj :: adj where
  "free_adj = [((1, 0), [[True, True], [True, True]]), ((- 1, 0), [[True, True], [True, True]]),
               ((0, 1), [[True, True], [True, True]]), ((0, - 1), [[True, True], [True, True]])]"

definition feasible_hook :: "nat \<Rightarrow> hook" where
  "feasible_hook m =
     Hook ''checkFeasible'' (\<lambda>c. case c of CallWave w \<Rightarrow> Inr (m \<le> total_count w) | _ \<Rightarrow> Inl TypeError)"

section \<open>Facts about makeWave\<close>

lemma count_col_replicate_True: "count_col (replicate h True) = h"
  by (simp add: count_col_def)

lemma count_col_clear_last:
  "0 < h \<Longrightarrow> count_col ((replicate h True)[h - 1 := False]) = h - 1"
proof -
  assume "0 < h"
  then obtain k where k: "h = Suc k" by (cases h) auto
  have "replicate (Suc k) True = replicate k True @ [True]"
    by (simp add: replicate_append_same)
  then have "(replicate (Suc k) True)[k := False] = replicate k True @ [False]"
    by (metis length_replicate list_update_length)
  then show ?thesis using k by (simp add: count_col_def)
qed

lemma set_clear_last:
  "(replicate h True)[y := True] = replicate h True"
  by (cases "y < h") (simp_all add: list_eq_iff_nth_eq nth_list_update)

lemma count_plane_replicate: "count_plane (replicate w c) = w * count_col c"
  by (simp add: count_plane_def sum_list_replicate)

lemma total_count_replicate: "total_count (replicate n m) = n * count_plane m"
  by (simp add: total_count_def sum_list_replicate)

lemma total_count_update:
  "p < length wave \<Longrightarrow>
   total_count (wave[p := m]) = total_count wave + count_plane m - count_plane (wave ! p)"
  by (simp add: total_count_def map_update sum_list_update)

definition ground_wave :: "nat \<Rightarrow> nat \<Rightarrow> nat \<Rightarrow> nat \<Rightarrow> wave" where
  "ground_wave n w h p =
     (replicate n (replicate w ((replicate h True)[h - 1 := False])))
       [p := replicate w (replicate h True)]"

lemma makeWave_ground:
  assumes "0 < h" and "- int n \<le> g" and "g < int n"
  shows "makeWave n w h (Some g) =
           Inr (ground_wave n w h (nat (if g < 0 then int n + g else g)))"
proof -
  let ?p = "nat (if g < 0 then int n + g else g)"
  have p: "?p < n" using assms by auto
  have "map (set_row (h - 1) False) (ones n w h) =
          replicate n (replicate w ((replicate h True)[h - 1 := False]))"
    by (simp add: ones_def set_row_def)
  moreover have "set_row (h - 1) True (replicate w ((replicate h True)[h - 1 := False])) =
          replicate w (replicate h True)"
    by (simp add: set_row_def set_clear_last)
  ultimately show ?thesis
    using assms p by (simp add: makeWave_def Let_def ground_wave_def del: replicate_Suc)
qed

lemma ground_wave_nth:
  assumes "q < n" "x < w" "y < h" "p < n"
  shows "ground_wave n w h p ! q ! x ! y \<longleftrightarrow> (q = p \<or> y \<noteq> h - 1)"
  using assms by (auto simp: ground_wave_def nth_list_update)

lemma ground_wave_total:
  assumes "0 < h" "p < n"
  shows "total_count (ground_wave n w h p) = n * w * (h - 1) + w"
proof -
  have "total_count (ground_wave n w h p) = n * (w * (h - 1)) + w * h - w * (h - 1)"
    using assms count_col_clear_last [of h]
    by (simp add: ground_wave_def total_count_update total_count_replicate
        count_plane_replicate count_col_replicate_True)
  also have "\<dots> = n * w * (h - 1) + w"
  proof -
    obtain k where "h = Suc k" using assms(1) by (cases h) auto
    then show ?thesis by (simp add: algebra_simps)
  qed
  finally show ?thesis .
qed

lemma ground_wave_is_wave: "is_wave n w h (ground_wave n w h p)"
  by (auto simp: is_wave_def is_plane_def ground_wave_def dest!: set_update_subset_insert [THEN subsetD])

lemma count_at_ground_wave:
  assumes "x < w" "y < h" "p < n"
  shows "count_at (ground_wave n w h p) x y = (if y = h - 1 then 1 else n)"
proof -
  have len: "length (ground_wave n w h p) = n"
    by (simp add: ground_wave_def)
  have "cell (ground_wave n w h p) x y = map (\<lambda>q. q = p \<or> y \<noteq> h - 1) [0..<n]"
    unfolding cell_def list_eq_iff_nth_eq using assms len
    by (simp add: ground_wave_nth)
  moreover have "length (filter id (map (\<lambda>q. q = p) [0..<n])) = 1"
  proof -
    have "filter id (map (\<lambda>q. q = p) [0..<n]) = map (\<lambda>q. q = p) (filter (\<lambda>q. q = p) [0..<n])"
      by (simp add: filter_map comp_def)
    moreover have "filter (\<lambda>q. q = p) [0..<n] = [p]"
    proof -
      have "[0..<n] = [0..<p] @ p # [Suc p..<n]"
        using assms(3) by (metis le0 upt_conv_Cons upt_add_eq_append le_add_diff_inverse less_imp_le_nat add.left_neutral)
      then show ?thesis by (auto simp: filter_empty_conv)
    qed
    ultimately show ?thesis by simp
  qed
  ultimately show ?thesis
    by (simp add: count_at_def count_col_def)
qed

section \<open>Claims about makeWave\<close>

text \<open>
  C8.  For positive \<open>N\<close>, \<open>W\<close>, \<open>H\<close> and a ground index \<open>g\<close> in \<open>[0, N)\<close>, \<open>makeWave\<close>
  returns an array of shape \<open>(N, W, H)\<close> in which every cell of the row \<open>y = H - 1\<close> has
  exactly one true pattern, namely \<open>g\<close>, every other cell has all \<open>N\<close> patterns true, and
  the number of true entries is \<open>N * W * (H - 1) + W\<close>.
\<close>

theorem makeWave_ground_counts:
  assumes "0 < n" and "0 < w" and "0 < h" and "g < n"
  shows "\<exists>wave. makeWave n w h (Some (int g)) = Inr wave \<and> is_wave n w h wave \<and>
           (\<forall>x<w. \<forall>y<h. count_at wave x y = (if y = h - 1 then 1 else n)) \<and>
           (\<forall>x<w. \<forall>p<n. wave ! p ! x ! (h - 1) \<longleftrightarrow> p = g) \<and>
           (\<forall>x<w. \<forall>y<h - 1. \<forall>p<n. wave ! p ! x ! y) \<and>
           total_count wave = n * w * (h - 1) + w"
proof -
  have "makeWave n w h (Some (int g)) = Inr (ground_wave n w h g)"
    using makeWave_ground [of h n "int g" w] assms by simp
  moreover have "\<forall>x<w. \<forall>y<h. count_at (ground_wave n w h g) x y = (if y = h - 1 then 1 else n)"
    using count_at_ground_wave [of _ w _ h g n] assms by blast
  moreover have "\<forall>x<w. \<forall>p<n. ground_wave n w h g ! p ! x ! (h - 1) \<longleftrightarrow> p = g"
    using ground_wave_nth [of _ n _ w "h - 1" h g] assms by simp
  moreover have "\<forall>x<w. \<forall>y<h - 1. \<forall>p<n. ground_wave n w h g ! p ! x ! y"
    using ground_wave_nth [of _ n _ w _ h g] assms by simp
  ultimately show ?thesis
    using ground_wave_total [of h g n w] ground_wave_is_wave [of n w h g] assms by blast
qed

theorem makeWave_ground_counts_witness:
  "(0::nat) < 3 \<and> (0::nat) < 10 \<and> (0::nat) < 20 \<and> (2::nat) < 3 \<and>
   (\<exists>wave. makeWave 3 10 20 (Some 2) = Inr wave \<and> is_wave 3 10 20 wave \<and>
      wave ! 2 ! 5 ! 19 \<and> \<not> wave ! 1 ! 5 ! 19 \<and> wave ! 1 ! 5 ! 18 \<and>
      total_count wave = 580)"
proof -
  obtain wave where w: "makeWave 3 10 20 (Some (int 2)) = Inr wave" "is_wave 3 10 20 wave"
     "\<forall>x<10. \<forall>p<3. wave ! p ! x ! (20 - 1) \<longleftrightarrow> p = 2"
     "\<forall>x<10. \<forall>y<20 - 1. \<forall>p<3. wave ! p ! x ! y"
     "total_count wave = 3 * 10 * (20 - 1) + 10"
    using makeWave_ground_counts [of 3 10 20 2] by auto
  have "wave ! 2 ! 5 ! 19" using w(3) by simp
  moreover have "\<not> wave ! 1 ! 5 ! 19" using w(3) by simp
  moreover have "wave ! 1 ! 5 ! 18" using w(4) by simp
  ultimately show ?thesis using w(1,2,5) by simp
qed

text \<open>
  C10.  A negative ground index \<open>g\<close> in \<open>[-N, 0)\<close> is accepted (the row \<open>y = H - 1\<close>
  exists, \<open>0 < H\<close>): no error is raised and the row \<open>y = H - 1\<close> is pinned to the pattern
  \<open>N + g\<close>.
\<close>

theorem makeWave_negative_ground:
  assumes "0 < h" and "- int n \<le> g" and "g < 0"
  shows "\<exists>wave. makeWave n w h (Some g) = Inr wave \<and> is_wave n w h wave \<and>
           (\<forall>x<w. \<forall>p<n. wave ! p ! x ! (h - 1) \<longleftrightarrow> int p = int n + g) \<and>
           (\<forall>x<w. count_at wave x (h - 1) = 1)"
proof -
  let ?p = "nat (int n + g)"
  have p: "?p < n" using assms by auto
  have "makeWave n w h (Some g) = Inr (ground_wave n w h ?p)"
    using makeWave_ground [of h n g w] assms by simp
  moreover have "\<forall>x<w. \<forall>q<n. ground_wave n w h ?p ! q ! x ! (h - 1) \<longleftrightarrow> int q = int n + g"
    using ground_wave_nth [of _ n _ w "h - 1" h ?p] assms p by auto
  moreover have "\<forall>x<w. count_at (ground_wave n w h ?p) x (h - 1) = 1"
    using count_at_ground_wave [of _ w "h - 1" h ?p n] assms p by simp
  ultimately show ?thesis
    using ground_wave_is_wave [of n w h ?p] by blast
qed

theorem makeWave_negative_ground_witness:
  "(0::nat) < 20 \<and> - int 3 \<le> - 1 \<and> (- 1 :: int) < 0 \<and>
   (\<exists>wave. makeWave 3 10 20 (Some (- 1)) = Inr wave \<and> is_wave 3 10 20 wave \<and>
      wave ! 2 ! 5 ! 19 \<and> \<not> wave ! 1 ! 5 ! 19 \<and> \<not> wave ! 0 ! 5 ! 19)"
proof -
  obtain wave where w: "makeWave 3 10 20 (Some (- 1)) = Inr wave" "is_wave 3 10 20 wave"
     "\<forall>x<10. \<forall>p<3. wave ! p ! x ! (20 - 1) \<longleftrightarrow> int p = int 3 + (- 1)"
    using makeWave_negative_ground [of 20 3 "- 1" 10] by auto
  have "wave ! 2 ! 5 ! 19" using w(3) by simp
  moreover have "\<not> wave ! 1 ! 5 ! 19" using w(3) by simp
  moreover have "\<not> wave ! 0 ! 5 ! 19" using w(3) by simp
  ultimately show ?thesis using w(1,2) by simp
qed

section \<open>Facts about makeAdj\<close>

lemma fill_js_error:
  "fill_js np i js m = Inl e \<longleftrightarrow> e = IndexError \<and> bad_row np i js"
  by (induction js arbitrary: m) (auto simp: bad_row_def)

lemma fill_rows_error:
  "fill_rows np i rows m = Inl e \<longleftrightarrow>
     e = IndexError \<and> (\<exists>r \<in> set (List.enumerate i rows). bad_row np (fst r) (snd r))"
proof (induction rows arbitrary: i m)
  case Nil
  then show ?case by simp
next
  case (Cons js rows)
  show ?case
  proof (cases "fill_js np i js m")
    case (Inl e')
    then have "e' = IndexError" "bad_row np i js" using fill_js_error by blast+
    then show ?thesis using Inl by auto
  next
    case (Inr m')
    then have "\<not> bad_row np i js"
      using fill_js_error [of np i js m IndexError] by auto
    then show ?thesis using Inr Cons.IH [of "Suc i" m'] by simp
  qed
qed

lemma build_all_error:
  "build_all np adjLists = Inl e \<longleftrightarrow> e = IndexError \<and> bad_lists np adjLists"
proof (induction adjLists)
  case Nil
  then show ?case by (simp add: bad_lists_def)
next
  case (Cons a rest)
  obtain d rows where a: "a = (d, rows)" by (cases a)
  have split: "bad_lists np (a # rest) \<longleftrightarrow>
      (\<exists>r \<in> set (List.enumerate 0 rows). bad_row np (fst r) (snd r)) \<or> bad_lists np rest"
    using a by (simp add: bad_lists_def)
  show ?case
  proof (cases "fill_rows np 0 rows (zeros np np)")
    case (Inl e')
    then show ?thesis using a split fill_rows_error [of np 0 rows "zeros np np" e'] by auto
  next
    case (Inr m)
    then have "\<not> (\<exists>r \<in> set (List.enumerate 0 rows). bad_row np (fst r) (snd r))"
      using fill_rows_error [of np 0 rows "zeros np np" IndexError] by auto
    then show ?thesis using a split Inr Cons.IH by (auto split: sum.splits)
  qed
qed

section \<open>Claims about makeAdj\<close>

text \<open>
  C6 as stated fails.  A later direction with fewer rows than the first one is accepted
  although the lists disagree on \<open>N\<close>, and the index \<open>-1\<close>, outside \<open>[0, N)\<close>, is accepted
  and addresses the last pattern.
\<close>

theorem makeAdj_accepts_counterexample:
  "lists_disagree [((1, 0), [[1], [0]]), ((- 1, 0), [[0]])] \<and>
   makeAdj [((1, 0), [[1], [0]]), ((- 1, 0), [[0]])] =
     Inr [((1, 0), [[False, True], [True, False]]), ((- 1, 0), [[True, False], [False, False]])] \<and>
   index_outside 2 [((1, 0), [[- 1], [0]])] \<and>
   makeAdj [((1, 0), [[- 1], [0]])] = Inr [((1, 0), [[False, True], [True, False]])]"
  by (auto simp: lists_disagree_def index_outside_def makeAdj_def zeros_def)

text \<open>
  C6, amended.  With \<open>N\<close> the number of rows of the first direction, \<open>makeAdj\<close> fails,
  with IndexError, exactly when \<open>adjLists\<close> is empty, or some direction lists a neighbour
  in a row of index \<open>N\<close> or more, or some listed neighbour index is outside \<open>[-N, N)\<close>.
\<close>

theorem makeAdj_fails_iff:
  "isl (makeAdj adjLists) \<longleftrightarrow>
     adjLists = [] \<or> bad_lists (length (snd (hd adjLists))) adjLists"
proof (cases adjLists)
  case Nil
  then show ?thesis by (simp add: makeAdj_def)
next
  case (Cons a rest)
  obtain d rows where a: "a = (d, rows)" by (cases a)
  have "isl (build_all (length rows) adjLists) \<longleftrightarrow> bad_lists (length rows) adjLists"
    using build_all_error [of "length rows" adjLists]
    by (cases "build_all (length rows) adjLists") auto
  then show ?thesis using Cons a by (simp add: makeAdj_def)
qed

theorem makeAdj_fails_iff_witness:
  "isl (makeAdj [((1, 0), [[0], [], [3]])]) \<and> \<not> isl (makeAdj [((1, 0), [[0], [- 2]])]) \<and>
   isl (makeAdj [((1, 0), [[0]]), ((0, 1), [[0], [0]])]) \<and>
   \<not> isl (makeAdj [((1, 0), [[0]]), ((0, 1), [[0], []])])"
  unfolding makeAdj_fails_iff
  by (simp add: bad_lists_def bad_row_def)

section \<open>Facts about propagate\<close>

lemma is_wave_nth:
  "is_wave n w h wave \<Longrightarrow> p < n \<Longrightarrow> is_plane w h (wave ! p)"
  by (simp add: is_wave_def)

lemma is_plane_nth:
  "is_plane w h m \<Longrightarrow> x < w \<Longrightarrow> length (m ! x) = h"
  by (simp add: is_plane_def)

lemma is_wave_shape:
  assumes "is_wave n w h wave" "0 < n" "0 < w"
  shows "shape1 wave = w" "shape2 wave = h"
proof -
  obtain m rest where wv: "wave = m # rest" using assms by (cases wave) (auto simp: is_wave_def)
  then have m: "is_plane w h m" using assms by (simp add: is_wave_def)
  then obtain c cs where "m = c # cs" using assms by (cases m) (auto simp: is_plane_def)
  then show "shape1 wave = w" "shape2 wave = h"
    using wv m by (auto simp: shape1_def shape2_def is_plane_def)
qed

lemma length_bcast: "length (bcast n xs) = n"
  by (simp add: bcast_def)

lemma length_mul_col: "length c = h \<Longrightarrow> length (mul_col h c sc) = h"
  by (simp add: mul_col_def length_bcast)

lemma mul_col_nth: "length c = h \<Longrightarrow> y < h \<Longrightarrow> mul_col h c sc ! y \<Longrightarrow> c ! y"
  by (simp add: mul_col_def length_bcast)

lemma is_plane_mul:
  assumes "is_plane w h m"
  shows "is_plane w h (mul_plane w h m sm)"
proof -
  have "length (mul_plane w h m sm) = w"
    using assms by (simp add: mul_plane_def is_plane_def length_bcast)
  moreover have "length c = h" if "c \<in> set (mul_plane w h m sm)" for c
  proof -
    from that obtain c1 sc where "(c1, sc) \<in> set (zip m (bcast w sm))" "c = mul_col h c1 sc"
      by (auto simp: mul_plane_def)
    moreover from this have "length c1 = h"
      using assms by (auto simp: is_plane_def dest: set_zip_leftD)
    ultimately show ?thesis by (simp add: length_mul_col)
  qed
  ultimately show ?thesis by (simp add: is_plane_def)
qed

lemma mul_plane_nth:
  assumes "is_plane w h m" "x < w" "y < h" "mul_plane w h m sm ! x ! y"
  shows "m ! x ! y"
proof -
  have "length m = w" "length (m ! x) = h"
    using assms(1,2) by (simp_all add: is_plane_def)
  then show ?thesis
    using assms(2,3,4) mul_col_nth [of "m ! x" h y "bcast w sm ! x"]
    by (simp add: mul_plane_def length_bcast)
qed

lemma mul_shape_le_pos:
  assumes "is_wave n w h wave" "0 < n" "0 < w"
  shows "is_wave n w h (mul wave s) \<and> le_wave n w h (mul wave s) wave"
proof -
  have sh: "shape1 wave = w" "shape2 wave = h"
    using is_wave_shape [OF assms] by simp_all
  have len: "length wave = n" using assms(1) by (simp add: is_wave_def)
  have l: "length (mul wave s) = n"
    using len by (simp add: mul_def length_bcast)
  have nth: "mul wave s ! p = mul_plane w h (wave ! p) (bcast n s ! p)" if "p < n" for p
    using that len by (simp add: mul_def sh length_bcast)
  have pl: "is_plane w h (wave ! p)" if "p < n" for p
    using is_wave_nth [OF assms(1) that] .
  have "is_plane w h m" if "m \<in> set (mul wave s)" for m
  proof -
    from that obtain p where "p < n" "m = mul wave s ! p"
      using l by (auto simp: in_set_conv_nth)
    then show ?thesis using nth pl by (simp add: is_plane_mul)
  qed
  then have "is_wave n w h (mul wave s)" using l by (simp add: is_wave_def)
  moreover have "le_wave n w h (mul wave s) wave"
    unfolding le_wave_def
  proof (intro allI impI)
    fix p x y
    assume b: "p < n" "x < w" "y < h" and t: "mul wave s ! p ! x ! y"
    show "wave ! p ! x ! y"
      using mul_plane_nth [OF pl [OF b(1)] b(2,3)] t nth [OF b(1)] by simp
  qed
  ultimately show ?thesis by blast
qed

lemma mul_shape_le:
  assumes "is_wave n w h wave"
  shows "is_wave n w h (mul wave s) \<and> le_wave n w h (mul wave s) wave"
proof (cases "0 < n \<and> 0 < w")
  case True
  then show ?thesis using mul_shape_le_pos [OF assms] by simp
next
  case False
  have len: "length wave = n" using assms by (simp add: is_wave_def)
  have l: "length (mul wave s) = n"
    using len by (simp add: mul_def length_bcast)
  have "is_plane w h m" if "m \<in> set (mul wave s)" for m
  proof -
    from that obtain p where p: "p < n" "m = mul wave s ! p"
      using l by (auto simp: in_set_conv_nth)
    then have "w = 0" using False by simp
    moreover have "wave ! p = []"
      using is_wave_nth [OF assms p(1)] \<open>w = 0\<close> by (simp add: is_plane_def)
    ultimately show ?thesis
      using p len by (simp add: mul_def length_bcast mul_plane_def is_plane_def)
  qed
  then have "is_wave n w h (mul wave s)" using l by (simp add: is_wave_def)
  moreover have "le_wave n w h (mul wave s) wave"
    using False by (auto simp: le_wave_def)
  ultimately show ?thesis by blast
qed

lemma le_wave_trans: "le_wave n w h a b \<Longrightarrow> le_wave n w h b c \<Longrightarrow> le_wave n w h a c"
  by (auto simp: le_wave_def)

lemma multiply_all_shape_le:
  assumes "is_wave n w h wave"
  shows "is_wave n w h (snd (multiply_all wave ss)) \<and>
         le_wave n w h (snd (multiply_all wave ss)) wave"
  using assms(1)
proof (induction ss arbitrary: wave)
  case Nil
  then show ?case by (simp add: le_wave_def)
next
  case (Cons s ss)
  show ?case
  proof (cases "bc_ok (length wave, shape1 wave, shape2 wave) (fst s)")
    case True
    have m: "is_wave n w h (mul wave (snd s))" "le_wave n w h (mul wave (snd s)) wave"
      using mul_shape_le [OF Cons.prems] by simp_all
    then show ?thesis
      using Cons.IH [OF m(1)] True by (auto intro: le_wave_trans)
  next
    case False
    then show ?thesis using Cons.prems by (simp add: le_wave_def)
  qed
qed

lemma sweep_shape_le:
  assumes "is_wave n w h wave"
  shows "is_wave n w h (sweep wave adj periodic) \<and> le_wave n w h (sweep wave adj periodic) wave"
  using assms multiply_all_shape_le [OF assms]
  by (auto simp: sweep_def pass_def Let_def le_wave_def split: sum.splits)

lemma collect_error: "collect rs = Inl e \<Longrightarrow> \<exists>r \<in> set rs. r = Inl e"
  by (induction rs rule: collect.induct) (auto split: sum.splits)

lemma collect_Inr:
  "\<forall>r \<in> set rs. \<exists>x. r = Inr x \<and> P x \<Longrightarrow> \<exists>xs. collect rs = Inr xs \<and> (\<forall>x \<in> set xs. P x)"
proof (induction rs)
  case Nil
  then show ?case by simp
next
  case (Cons r rs)
  then obtain x where "r = Inr x" "P x" by auto
  moreover obtain xs where "collect rs = Inr xs" "\<forall>x \<in> set xs. P x" using Cons by auto
  ultimately show ?case by simp
qed

lemma multiply_all_error: "fst (multiply_all wave ss) = Some e \<Longrightarrow> e = ValueError"
  by (induction ss arbitrary: wave) (auto split: if_splits)

lemma pass_error: "fst (pass wave adj periodic) = Some e \<Longrightarrow> e = ValueError"
proof -
  assume a: "fst (pass wave adj periodic) = Some e"
  show ?thesis
  proof (cases "periodic \<and> empty_axis wave")
    case True
    then show ?thesis using a by (simp add: pass_def)
  next
    case False
    let ?rs = "map (\<lambda>dm.
        einsum (slice_len (shape1 wave + 2) (1 + fst (fst dm)) (1 + int (shape1 wave) + fst (fst dm)))
               (slice_len (shape2 wave + 2) (1 + snd (fst dm)) (1 + int (shape2 wave) + snd (fst dm)))
               (shifted (pad periodic wave) (shape1 wave) (shape2 wave) (fst dm)) (snd dm)) adj"
    show ?thesis
    proof (cases "collect ?rs")
      case (Inl e')
      then have "\<exists>r \<in> set ?rs. r = Inl e'" by (rule collect_error)
      then have "e' = ValueError" by (auto simp: einsum_def split: option.splits)
      then show ?thesis using a False Inl by (simp add: pass_def Let_def)
    next
      case (Inr ss)
      then show ?thesis
        using a False multiply_all_error [of wave ss e] by (simp add: pass_def Let_def)
    qed
  qed
qed

lemma slice_len_unit:
  assumes "d \<in> {- 1, 0, 1}"
  shows "slice_len (w + 2) (1 + d) (1 + int w + d) = w"
  using assms by (auto simp: slice_len_def clip_def)

lemma slice_len_unit_Suc:
  "d \<in> {- 1, 0, 1} \<Longrightarrow> slice_len (Suc (Suc w)) (1 + d) (1 + int w + d) = w"
  using slice_len_unit [of d w] by simp

lemma multiply_all_fits:
  assumes "is_wave n w h wave" "0 < n" "0 < w"
    and "\<forall>s \<in> set ss. fst s = (n, w, h)"
  shows "fst (multiply_all wave ss) = None"
  using assms(1,4)
proof (induction ss arbitrary: wave)
  case Nil
  then show ?case by simp
next
  case (Cons s ss)
  have sh: "shape1 wave = w" "shape2 wave = h" "length wave = n"
    using is_wave_shape [OF Cons.prems(1) assms(2,3)] Cons.prems(1) by (simp_all add: is_wave_def)
  have ok: "bc_ok (length wave, shape1 wave, shape2 wave) (fst s)"
    using Cons.prems(2) sh by (simp add: bc_ok_def)
  have "is_wave n w h (mul wave (snd s))"
    using mul_shape_le [OF Cons.prems(1)] by simp
  then show ?case using Cons.IH Cons.prems(2) ok by simp
qed

lemma pass_fits:
  assumes "is_wave n w h wave" "0 < n" "0 < w" "0 < h" "adj_fits n adj"
  shows "fst (pass wave adj periodic) = None"
proof -
  have sh: "shape1 wave = w" "shape2 wave = h" "length wave = n"
    using is_wave_shape [OF assms(1,2,3)] assms(1) by (simp_all add: is_wave_def)
  have ne: "\<not> empty_axis wave" using sh assms(3,4) by (simp add: empty_axis_def)
  let ?rs = "map (\<lambda>dm.
        einsum (slice_len (w + 2) (1 + fst (fst dm)) (1 + int w + fst (fst dm)))
               (slice_len (h + 2) (1 + snd (fst dm)) (1 + int h + snd (fst dm)))
               (shifted (pad periodic wave) w h (fst dm)) (snd dm)) adj"
  have "\<forall>r \<in> set ?rs. \<exists>x. r = Inr x \<and> fst x = (n, w, h)"
  proof
    fix r assume "r \<in> set ?rs"
    then obtain dm where dm: "dm \<in> set adj"
      and r: "r = einsum (slice_len (w + 2) (1 + fst (fst dm)) (1 + int w + fst (fst dm)))
               (slice_len (h + 2) (1 + snd (fst dm)) (1 + int h + snd (fst dm)))
               (shifted (pad periodic wave) w h (fst dm)) (snd dm)" by auto
    have fit: "fst (fst dm) \<in> {- 1, 0, 1}" "snd (fst dm) \<in> {- 1, 0, 1}" "length (snd dm) = n"
      "\<forall>row \<in> set (snd dm). length row = n"
      using assms(5) dm by (auto simp: adj_fits_def list_all_iff)
    have "ncols (snd dm) = n"
      using fit(3,4) assms(2) by (cases "snd dm") (auto simp: ncols_def)
    moreover have "length (shifted (pad periodic wave) w h (fst dm)) = n"
      using sh by (simp add: shifted_def pad_def)
    ultimately show "\<exists>x. r = Inr x \<and> fst x = (n, w, h)"
      using r fit(3) slice_len_unit_Suc [OF fit(1), of w] slice_len_unit_Suc [OF fit(2), of h]
      by (simp add: einsum_def bdim_def)
  qed
  then obtain ss where "collect ?rs = Inr ss" "\<forall>s \<in> set ss. fst s = (n, w, h)"
    using collect_Inr [of ?rs "\<lambda>x. fst x = (n, w, h)"] by blast
  then show ?thesis
    using ne sh multiply_all_fits [OF assms(1,2,3)] by (simp add: pass_def Let_def)
qed

lemma tighten_unfold:
  "tighten wave c adj periodic =
     (if fst (pass wave adj periodic) \<noteq> None then pass wave adj periodic
      else if total_count (sweep wave adj periodic) = c then pass wave adj periodic
      else tighten (sweep wave adj periodic) (total_count (sweep wave adj periodic)) adj periodic)"
  by (rule tighten.simps)

lemma tighten_error: "fst (tighten wave c adj periodic) = Some e \<Longrightarrow> e = ValueError"
proof (induction wave c adj periodic rule: tighten.induct)
  case (1 wave last_count adj periodic)
  show ?case
  proof (cases "fst (pass wave adj periodic) \<noteq> None \<or>
                total_count (sweep wave adj periodic) = last_count")
    case True
    then have "tighten wave last_count adj periodic = pass wave adj periodic"
      using tighten_unfold [of wave last_count adj periodic] by auto
    then show ?thesis using "1.prems" pass_error by simp
  next
    case False
    then have "tighten wave last_count adj periodic =
        tighten (sweep wave adj periodic) (total_count (sweep wave adj periodic)) adj periodic"
      using tighten_unfold [of wave last_count adj periodic] by simp
    then show ?thesis using "1.IH" "1.prems" False by simp
  qed
qed

lemma tighten_shape_le:
  assumes "is_wave n w h wave"
  shows "is_wave n w h (snd (tighten wave c adj periodic)) \<and>
         le_wave n w h (snd (tighten wave c adj periodic)) wave"
  using assms(1)
proof (induction wave c adj periodic rule: tighten.induct)
  case (1 wave last_count adj periodic)
  let ?w = "sweep wave adj periodic"
  have sw: "is_wave n w h ?w" "le_wave n w h ?w wave"
    using sweep_shape_le [OF "1.prems"] by simp_all
  show ?case
  proof (cases "fst (pass wave adj periodic) \<noteq> None \<or> total_count ?w = last_count")
    case True
    then have "tighten wave last_count adj periodic = pass wave adj periodic"
      using tighten_unfold [of wave last_count adj periodic] by auto
    then show ?thesis using sw by (simp add: sweep_def)
  next
    case False
    then have eq: "tighten wave last_count adj periodic = tighten ?w (total_count ?w) adj periodic"
      using tighten_unfold [of wave last_count adj periodic] by simp
    have "is_wave n w h (snd (tighten ?w (total_count ?w) adj periodic))"
      "le_wave n w h (snd (tighten ?w (total_count ?w) adj periodic)) ?w"
      using "1.IH" [OF _ _ sw(1)] False by simp_all
    then show ?thesis
      using sw(2) unfolding eq by (blast intro: le_wave_trans)
  qed
qed

lemma tighten_total_le: "total_count (snd (tighten wave c adj periodic)) \<le> total_count wave"
proof (induction wave c adj periodic rule: tighten.induct)
  case (1 wave last_count adj periodic)
  let ?w = "sweep wave adj periodic"
  show ?case
  proof (cases "fst (pass wave adj periodic) \<noteq> None \<or> total_count ?w = last_count")
    case True
    then have "tighten wave last_count adj periodic = pass wave adj periodic"
      using tighten_unfold [of wave last_count adj periodic] by auto
    then show ?thesis using total_count_sweep_le [of wave adj periodic] by (simp add: sweep_def)
  next
    case False
    then have eq: "tighten wave last_count adj periodic = tighten ?w (total_count ?w) adj periodic"
      using tighten_unfold [of wave last_count adj periodic] by simp
    show ?thesis
      using "1.IH" False total_count_sweep_le [of wave adj periodic]
      unfolding eq by simp
  qed
qed

lemma sum_list_map_zero_iff:
  "sum_list (map f xs) = (0::nat) \<longleftrightarrow> (\<forall>i<length xs. f (xs ! i) = 0)"
  by (simp add: all_set_conv_all_nth)

lemma total_count_zero_iff:
  assumes "is_wave n w h wave"
  shows "total_count wave = 0 \<longleftrightarrow> (\<forall>x<w. \<forall>y<h. count_at wave x y = 0)"
proof -
  have col: "count_col c = 0 \<longleftrightarrow> (\<forall>y<length c. \<not> c ! y)" for c
    by (auto simp: count_col_def filter_empty_conv in_set_conv_nth)
  have "total_count wave = 0 \<longleftrightarrow> (\<forall>p<n. \<forall>x<w. \<forall>y<h. \<not> wave ! p ! x ! y)"
  proof -
    have "total_count wave = 0 \<longleftrightarrow> (\<forall>p<n. count_plane (wave ! p) = 0)"
      using assms unfolding total_count_def sum_list_map_zero_iff by (simp add: is_wave_def)
    also have "\<dots> \<longleftrightarrow> (\<forall>p<n. \<forall>x<w. count_col (wave ! p ! x) = 0)"
    proof -
      have "count_plane (wave ! p) = 0 \<longleftrightarrow> (\<forall>x<w. count_col (wave ! p ! x) = 0)" if "p < n" for p
      proof -
        have "length (wave ! p) = w" using is_wave_nth [OF assms that] by (simp add: is_plane_def)
        then show ?thesis unfolding count_plane_def sum_list_map_zero_iff by simp
      qed
      then show ?thesis by auto
    qed
    also have "\<dots> \<longleftrightarrow> (\<forall>p<n. \<forall>x<w. \<forall>y<h. \<not> wave ! p ! x ! y)"
    proof -
      have "length (wave ! p ! x) = h" if "p < n" "x < w" for p x
        using is_wave_nth [OF assms that(1)] that(2) by (simp add: is_plane_nth)
      then show ?thesis by (auto simp: col)
    qed
    finally show ?thesis .
  qed
  also have "\<dots> \<longleftrightarrow> (\<forall>x<w. \<forall>y<h. count_at wave x y = 0)"
  proof -
    have "count_at wave x y = 0 \<longleftrightarrow> (\<forall>p<n. \<not> wave ! p ! x ! y)" for x y
      using assms by (auto simp: count_at_def cell_def col is_wave_def)
    then show ?thesis by auto
  qed
  finally show ?thesis .
qed


lemma sum_list_pointwise_le:
  "length xs = length ys \<Longrightarrow> (\<forall>i<length xs. f (xs ! i) \<le> (g (ys ! i) :: nat)) \<Longrightarrow>
   sum_list (map f xs) \<le> sum_list (map g ys)"
proof (induction xs ys rule: list_induct2)
  case Nil
  then show ?case by simp
next
  case (Cons x xs y ys)
  have "f x \<le> g y" using Cons.prems by (auto dest: spec [of _ 0])
  moreover have "\<forall>i<length xs. f (xs ! i) \<le> g (ys ! i)"
    using Cons.prems by (auto dest: spec [of _ "Suc _"])
  ultimately show ?case using Cons.IH by (simp add: add_mono)
qed

lemma sum_list_pointwise_eq:
  "length xs = length ys \<Longrightarrow> (\<forall>i<length xs. f (xs ! i) \<le> (g (ys ! i) :: nat)) \<Longrightarrow>
   sum_list (map f xs) = sum_list (map g ys) \<Longrightarrow> (\<forall>i<length xs. f (xs ! i) = g (ys ! i))"
proof (induction xs ys rule: list_induct2)
  case Nil
  then show ?case by simp
next
  case (Cons x xs y ys)
  have h: "f x \<le> g y" using Cons.prems(1) by (auto dest: spec [of _ 0])
  have t: "\<forall>i<length xs. f (xs ! i) \<le> g (ys ! i)"
    using Cons.prems(1) by (auto dest: spec [of _ "Suc _"])
  have le: "sum_list (map f xs) \<le> sum_list (map g ys)"
    using sum_list_pointwise_le [OF Cons.hyps t] .
  have "f x = g y" "sum_list (map f xs) = sum_list (map g ys)"
    using h le Cons.prems(2) by simp_all
  then show ?case using Cons.IH [OF t] by (auto simp: nth_Cons split: nat.splits)
qed

lemma count_col_as_sum: "count_col c = sum_list (map (\<lambda>b. if b then 1 else 0) c)"
  by (induction c) (simp_all add: count_col_def)

lemma col_eq:
  assumes "length c = length d" "\<forall>y<length c. c ! y \<longrightarrow> d ! y" "count_col c = count_col d"
  shows "c = d"
proof -
  let ?f = "\<lambda>b. if b then 1 else (0::nat)"
  have le: "\<forall>y<length c. ?f (c ! y) \<le> ?f (d ! y)" using assms(2) by auto
  have s: "sum_list (map ?f c) = sum_list (map ?f d)"
    using assms(3) by (simp only: count_col_as_sum)
  have "\<forall>y<length c. ?f (c ! y) = ?f (d ! y)"
    using sum_list_pointwise_eq [OF assms(1) le s] .
  then have "\<forall>y<length c. c ! y = d ! y" by (metis zero_neq_one)
  then show ?thesis using assms(1) by (simp add: list_eq_iff_nth_eq)
qed

lemma col_le:
  assumes "length c = length d" "\<forall>y<length c. c ! y \<longrightarrow> d ! y"
  shows "count_col c \<le> count_col d"
proof -
  let ?f = "\<lambda>b. if b then 1 else (0::nat)"
  have "\<forall>y<length c. ?f (c ! y) \<le> ?f (d ! y)" using assms(2) by auto
  then show ?thesis
    using sum_list_pointwise_le [OF assms(1), of ?f ?f] by (simp only: count_col_as_sum)
qed

lemma plane_le:
  assumes "is_plane w h a" "is_plane w h b" "\<forall>x<w. \<forall>y<h. a ! x ! y \<longrightarrow> b ! x ! y"
  shows "\<forall>x<w. count_col (a ! x) \<le> count_col (b ! x)"
  using assms by (auto simp: is_plane_def intro!: col_le)

lemma plane_eq:
  assumes "is_plane w h a" "is_plane w h b" "\<forall>x<w. \<forall>y<h. a ! x ! y \<longrightarrow> b ! x ! y"
    and "count_plane a = count_plane b"
  shows "a = b"
proof -
  have len: "length a = length b" "length a = w" using assms(1,2) by (simp_all add: is_plane_def)
  have le: "\<forall>x<length a. count_col (a ! x) \<le> count_col (b ! x)"
    using plane_le [OF assms(1,2,3)] len by simp
  have s: "sum_list (map count_col a) = sum_list (map count_col b)"
    using assms(4) by (simp only: count_plane_def)
  have "\<forall>x<length a. count_col (a ! x) = count_col (b ! x)"
    using sum_list_pointwise_eq [OF len(1) le s] .
  then have "\<forall>x<length a. a ! x = b ! x"
    using assms(1,2,3) len by (auto simp: is_plane_def intro!: col_eq)
  then show ?thesis using len(1) by (simp add: list_eq_iff_nth_eq)
qed

lemma wave_eq:
  assumes "is_wave n w h a" "is_wave n w h b" "le_wave n w h a b"
    and "total_count a = total_count b"
  shows "a = b"
proof -
  have len: "length a = length b" "length a = n" using assms(1,2) by (simp_all add: is_wave_def)
  have pl: "is_plane w h (a ! p)" "is_plane w h (b ! p)" if "p < n" for p
    using assms(1,2) that by (simp_all add: is_wave_def)
  have pw: "\<forall>x<w. \<forall>y<h. a ! p ! x ! y \<longrightarrow> b ! p ! x ! y" if "p < n" for p
    using assms(3) that by (simp add: le_wave_def)
  have "count_plane (a ! p) \<le> count_plane (b ! p)" if "p < n" for p
  proof -
    have "length (a ! p) = length (b ! p)" using pl [OF that] by (simp add: is_plane_def)
    moreover have "\<forall>x<length (a ! p). count_col (a ! p ! x) \<le> count_col (b ! p ! x)"
      using plane_le [OF pl [OF that] pw [OF that]] pl(1) [OF that] by (simp add: is_plane_def)
    ultimately show ?thesis
      unfolding count_plane_def by (rule sum_list_pointwise_le)
  qed
  then have le: "\<forall>p<length a. count_plane (a ! p) \<le> count_plane (b ! p)" using len by simp
  have s: "sum_list (map count_plane a) = sum_list (map count_plane b)"
    using assms(4) by (simp only: total_count_def)
  have "\<forall>p<length a. count_plane (a ! p) = count_plane (b ! p)"
    using sum_list_pointwise_eq [OF len(1) le s] .
  then have "\<forall>p<length a. a ! p = b ! p"
    using plane_eq [OF pl pw] len by simp
  then show ?thesis using len(1) by (simp add: list_eq_iff_nth_eq)
qed

lemma tighten_fits:
  assumes "is_wave n w h wave" "0 < n" "0 < w" "0 < h" "adj_fits n adj"
  shows "c = total_count wave \<Longrightarrow>
         fst (tighten wave c adj periodic) = None \<and>
         sweep (snd (tighten wave c adj periodic)) adj periodic = snd (tighten wave c adj periodic)"
  using assms(1,5)
proof (induction wave c adj periodic rule: tighten.induct)
  case (1 wave last_count adj periodic)
  let ?w = "sweep wave adj periodic"
  have ok: "fst (pass wave adj periodic) = None"
    using pass_fits [OF "1.prems"(2) assms(2,3,4) "1.prems"(3)] .
  have sw: "is_wave n w h ?w" "le_wave n w h ?w wave"
    using sweep_shape_le [OF "1.prems"(2)] by simp_all
  show ?case
  proof (cases "total_count ?w = last_count")
    case True
    then have t: "tighten wave last_count adj periodic = pass wave adj periodic"
      using tighten_unfold [of wave last_count adj periodic] by simp
    have "?w = wave"
      using wave_eq [OF sw(1) "1.prems"(2) sw(2)] True "1.prems"(1) by simp
    then show ?thesis using t ok by (simp add: sweep_def)
  next
    case False
    then have eq: "tighten wave last_count adj periodic = tighten ?w (total_count ?w) adj periodic"
      using tighten_unfold [of wave last_count adj periodic] ok by simp
    show ?thesis
      unfolding eq using "1.IH" [OF _ False refl sw(1) "1.prems"(3)] ok by simp
  qed
qed

lemma propagate_fits:
  assumes "is_wave n w h wave" "0 < n" "0 < w" "0 < h" "adj_fits n adj"
  shows "propagate wave adj periodic =
           (if total_count (snd (tighten wave (total_count wave) adj periodic)) = 0
            then Some Contradiction else None,
            snd (tighten wave (total_count wave) adj periodic))"
  using tighten_fits [OF assms refl, of periodic] by (simp add: propagate_def Let_def)

lemma propagate_snd:
  "snd (propagate wave adj periodic) = snd (tighten wave (total_count wave) adj periodic)"
  by (simp add: propagate_def Let_def)

lemma makeAdj_test: "makeAdj test_adjLists = Inr test_adj"
  by (simp add: makeAdj_def test_adjLists_def test_adj_def test_matrix_def zeros_def)

lemma adj_fits_test: "adj_fits 3 test_adj"
  by (simp add: adj_fits_def test_adj_def test_matrix_def)

lemma is_wave_pinned: "is_wave 3 3 4 pinned_wave"
  by code_simp

section \<open>Claims about propagate\<close>

text \<open>
  C7.  \<open>propagate\<close> is monotone, for every wave, adjacency model and periodic flag: the
  array keeps its shape, no entry changes from false to true, and the number of true
  entries after the call is at most the number before.
\<close>

theorem propagate_monotone:
  assumes "is_wave n w h wave"
  shows "is_wave n w h (snd (propagate wave adj periodic)) \<and>
         (\<forall>p<n. \<forall>x<w. \<forall>y<h. snd (propagate wave adj periodic) ! p ! x ! y \<longrightarrow> wave ! p ! x ! y) \<and>
         total_count (snd (propagate wave adj periodic)) \<le> total_count wave"
  using tighten_shape_le [OF assms, of "total_count wave" adj periodic]
    tighten_total_le [of wave "total_count wave" adj periodic]
  by (simp add: propagate_snd le_wave_def)

lemma propagate_pinned:
  "propagate pinned_wave test_adj False = (None,
     [[[True, False, True, False], [False, True, False, True], [True, False, True, False]],
      [[False, True, False, True], [True, False, True, False], [False, True, False, True]],
      [[False, False, False, False], [False, False, False, False], [False, False, False, False]]])"
  by code_simp

theorem propagate_monotone_witness:
  "is_wave 3 3 4 pinned_wave \<and>
   total_count (snd (propagate pinned_wave test_adj False)) \<le> total_count pinned_wave \<and>
   total_count (snd (propagate pinned_wave test_adj False)) = 12 \<and> total_count pinned_wave = 34 \<and>
   is_wave 2 2 2 (ones 2 2 2) \<and>
   propagate (ones 2 2 2) [((2, 0), [[False, True], [False, True]])] False
     = (None, [[[False, False], [False, False]], [[True, True], [True, True]]]) \<and>
   total_count (snd (propagate (ones 2 2 2) [((2, 0), [[False, True], [False, True]])] False))
     \<le> total_count (ones 2 2 2)"
proof -
  have a: "is_wave 3 3 4 pinned_wave" by (rule is_wave_pinned)
  have b: "is_wave 2 2 2 (ones 2 2 2)" by code_simp
  have "total_count (snd (propagate pinned_wave test_adj False)) \<le> total_count pinned_wave"
    using propagate_monotone [OF a, of test_adj False] by simp
  moreover have "total_count (snd (propagate pinned_wave test_adj False)) = 12"
    unfolding propagate_pinned by code_simp
  moreover have "total_count pinned_wave = 34" by code_simp
  moreover have "propagate (ones 2 2 2) [((2, 0), [[False, True], [False, True]])] False
     = (None, [[[False, False], [False, False]], [[True, True], [True, True]]])"
    by code_simp
  moreover have
    "total_count (snd (propagate (ones 2 2 2) [((2, 0), [[False, True], [False, True]])] False))
       \<le> total_count (ones 2 2 2)"
    using propagate_monotone [OF b, of "[((2, 0), [[False, True], [False, True]])]" False]
    by simp
  ultimately show ?thesis using a b by simp
qed

text \<open>
  C1 as stated fails.  With two patterns on a 1 x 2 grid and the single direction
  \<open>(0, -1)\<close>, in which pattern 0 allows only pattern 1 and pattern 1 allows nothing, the
  loop ends in an array that a further pass leaves unchanged and whose cell \<open>(0, 1)\<close> has
  no pattern left, while cell \<open>(0, 0)\<close> keeps pattern 1: no Contradiction is raised.
\<close>

theorem propagate_empty_cell_counterexample:
  "is_wave 2 1 2 [[[True, True]], [[True, True]]] \<and>
   adj_fits 2 [((0, - 1), [[False, True], [False, False]])] \<and>
   propagate [[[True, True]], [[True, True]]] [((0, - 1), [[False, True], [False, False]])] False
     = (None, [[[False, False]], [[True, False]]]) \<and>
   sweep [[[False, False]], [[True, False]]] [((0, - 1), [[False, True], [False, False]])] False
     = [[[False, False]], [[True, False]]] \<and>
   count_at [[[False, False]], [[True, False]]] 0 1 = 0"
  by code_simp

text \<open>
  C1, amended.  The loop of \<open>propagate\<close> ends in a fixpoint, an array that a further pass
  leaves unchanged, and \<open>propagate\<close> raises Contradiction exactly when every cell of that
  array is empty, that is when \<open>wave.sum() == 0\<close>.
\<close>

theorem propagate_contradiction_iff:
  assumes "is_wave n w h wave" and "0 < n" and "0 < w" and "0 < h" and "adj_fits n adj"
  shows "sweep (snd (propagate wave adj periodic)) adj periodic = snd (propagate wave adj periodic) \<and>
         (fst (propagate wave adj periodic) = Some Contradiction \<longleftrightarrow>
            (\<forall>x<w. \<forall>y<h. count_at (snd (propagate wave adj periodic)) x y = 0))"
proof -
  let ?t = "snd (tighten wave (total_count wave) adj periodic)"
  have "is_wave n w h ?t"
    using tighten_shape_le [OF assms(1)] by simp
  then have "total_count ?t = 0 \<longleftrightarrow> (\<forall>x<w. \<forall>y<h. count_at ?t x y = 0)"
    by (rule total_count_zero_iff)
  moreover have "sweep ?t adj periodic = ?t"
    using tighten_fits [OF assms refl] by simp
  ultimately show ?thesis using propagate_fits [OF assms, of periodic] by simp
qed

theorem propagate_contradiction_iff_witness:
  "is_wave 3 3 4 pinned_wave \<and> adj_fits 3 test_adj \<and>
   fst (propagate pinned_wave test_adj True) = Some Contradiction \<and>
   count_at (snd (propagate pinned_wave test_adj True)) 0 0 = 0 \<and>
   count_at (snd (propagate pinned_wave test_adj True)) 2 3 = 0"
proof -
  have a: "is_wave 3 3 4 pinned_wave" by (rule is_wave_pinned)
  have b: "adj_fits 3 test_adj" by (rule adj_fits_test)
  have c: "fst (propagate pinned_wave test_adj True) = Some Contradiction" by code_simp
  have "\<forall>x<3. \<forall>y<4. count_at (snd (propagate pinned_wave test_adj True)) x y = 0"
    using propagate_contradiction_iff [OF a _ _ _ b, of True] c by simp
  then have "count_at (snd (propagate pinned_wave test_adj True)) 0 0 = 0"
    "count_at (snd (propagate pinned_wave test_adj True)) 2 3 = 0"
    by simp_all
  then show ?thesis using a b c by simp
qed

section \<open>Claims about run on the data of the tests\<close>

lemma makeWave_test: "makeWave 3 3 4 None = Inr (ones 3 3 4)"
  by (simp add: makeWave_def)

text \<open>
  C2.  On the all-true 3 x 4 wave of three patterns, with the adjacency of the tests,
  the lexical heuristics, \<open>periodic = False\<close> and no backtracking, \<open>run\<close> returns the grid
  \<open>[[0,1,0,1],[1,0,1,0],[0,1,0,1]]\<close>; one frame is enough.
\<close>

theorem run_nonperiodic_lexical:
  "makeWave 3 3 4 None = Inr (ones 3 3 4) \<and> makeAdj test_adjLists = Inr test_adj \<and>
   map_option fst
     (run (Suc fuel) (ones 3 3 4) test_adj lexicalLocationHeuristic lexicalPatternHeuristic
        False False None None None)
     = Some (Inr [[0, 1, 0, 1], [1, 0, 1, 0], [0, 1, 0, 1]])"
proof -
  have "map_option fst
     (run (Suc fuel) (ones 3 3 4) test_adj lexicalLocationHeuristic lexicalPatternHeuristic
        False False None None None)
     = Some (Inr [[0, 1, 0, 1], [1, 0, 1, 0], [0, 1, 0, 1]])"
    by code_simp
  then show ?thesis using makeWave_test makeAdj_test by simp
qed

text \<open>
  C3.  On the same wave and adjacency, with \<open>periodic = True\<close>, backtracking and the two
  logging hooks of \<open>test_run\<close>, \<open>run\<close> returns the grid of twos, and the hook calls are
  one call of \<open>onChoice\<close> with \<open>(0, 0, 0)\<close> followed by one call of \<open>onBacktrack\<close>; two
  frames are enough.
\<close>

theorem run_periodic_backtracking:
  "map_option (\<lambda>out. (fst out, hook_log (snd (snd out))))
     (run (Suc (Suc fuel)) (ones 3 3 4) test_adj lexicalLocationHeuristic
        lexicalPatternHeuristic True True
        (Some (log_hook ''onBacktrack'')) (Some (log_hook ''onChoice'')) None)
     = Some (Inr [[2, 2, 2, 2], [2, 2, 2, 2], [2, 2, 2, 2]],
             [Called ''onChoice'' (CallChoice 0 0 0), Called ''onBacktrack'' CallUnit])"
  by code_simp

section \<open>Facts about run\<close>

lemma makeAdj_free: "makeAdj free_adjLists = Inr free_adj"
  by (simp add: makeAdj_def free_adjLists_def free_adj_def zeros_def)

lemma propagate_Contradiction:
  assumes "propagate wave adj periodic = (Some Contradiction, arr)"
  shows "total_count arr = 0"
proof (cases "fst (tighten wave (total_count wave) adj periodic)")
  case None
  then show ?thesis using assms by (auto simp: propagate_def Let_def split: if_splits)
next
  case (Some e)
  then have "e = ValueError" by (rule tighten_error)
  then show ?thesis using assms Some by (auto simp: propagate_def Let_def)
qed

lemma attempt_Failed:
  assumes "attempt rec wave adj locH patH periodic onChoice tr0 = Failed bound arr tr"
    and "\<And>w. locH w \<noteq> Inl Contradiction" and "\<And>ws. patH ws \<noteq> Inl Contradiction"
    and "quiet onChoice"
    and "\<And>w arr' tr'. rec w None None = Some (Inl Contradiction, arr', tr') \<Longrightarrow> total_count arr' = 0"
  shows "total_count arr = 0"
  using assms
  by (auto simp: attempt_def raised_def observe_def quiet_def Let_def
      split: sum.splits prod.splits if_splits option.splits dest: propagate_Contradiction)


lemma attempt_Done:
  assumes "attempt rec wave adj locH patH periodic onChoice tr0 = Done (res, arr, tr)"
    and "Caught \<notin> set tr0" and "Caught \<in> set tr"
    and "\<And>w res' arr' tr'. rec w None None = Some (res', arr', tr') \<Longrightarrow> Caught \<in> set tr'
           \<Longrightarrow> total_count arr' = 0"
  shows "total_count arr = 0"
  using assms
  by (auto simp: attempt_def raised_def Let_def
      split: sum.splits prod.splits if_splits option.splits)

lemma handler_arr:
  "handler rec original backtracking onBacktrack checkFeasible bound arr tr = Some (res, arr', tr')
     \<Longrightarrow> arr' = arr"
  by (auto simp: handler_def Let_def split: sum.splits prod.splits if_splits option.splits)

lemma run_caught_invariant:
  assumes "\<And>w. locH w \<noteq> Inl Contradiction" and "\<And>ws. patH ws \<noteq> Inl Contradiction"
    and "quiet onBacktrack"
  shows "run fuel wave adj locH patH periodic backtracking onBacktrack onChoice checkFeasible
           = Some (res, arr, tr) \<Longrightarrow> quiet onChoice \<Longrightarrow> quiet checkFeasible \<Longrightarrow>
         (Caught \<in> set tr \<longrightarrow> total_count arr = 0) \<and>
         (checkFeasible = None \<longrightarrow> res = Inl Contradiction \<longrightarrow> total_count arr = 0)"
proof (induction fuel arbitrary: wave onChoice checkFeasible res arr tr)
  case 0
  then show ?case by simp
next
  case (Suc fuel)
  let ?rec = "\<lambda>wave onChoice checkFeasible.
      run fuel wave adj locH patH periodic backtracking onBacktrack onChoice checkFeasible"
  let ?tr0 = "case checkFeasible of None \<Rightarrow> [Enter wave]
                | Some hk \<Rightarrow> [Enter wave, Called (label hk) (CallWave wave)]"
  have tr0: "Caught \<notin> set ?tr0" by (simp split: option.splits)
  have recC: "total_count arr' = 0"
    if "?rec w None None = Some (Inl Contradiction, arr', tr')" for w arr' tr'
    using Suc.IH [OF that] by (simp add: quiet_def)
  have recT: "total_count arr' = 0"
    if "?rec w None None = Some (res', arr', tr')" "Caught \<in> set tr'" for w res' arr' tr'
    using Suc.IH [OF that(1)] that(2) by (simp add: quiet_def)
  from Suc.prems(1)
  have fr: "frame ?rec wave adj locH patH periodic backtracking onBacktrack onChoice checkFeasible
          = Some (res, arr, tr)" by simp
  show ?case
  proof (cases "case checkFeasible of None \<Rightarrow> Inr True | Some hk \<Rightarrow> behave hk (CallWave wave)")
    case (Inl e)
    then have "res = Inl e" "tr = ?tr0" "checkFeasible \<noteq> None"
      using fr by (auto simp: frame_def Let_def split: option.splits)
    then show ?thesis using tr0 by auto
  next
    case (Inr feasible)
    show ?thesis
    proof (cases feasible)
      case False
      then have "tr = ?tr0" "checkFeasible \<noteq> None"
        using fr Inr by (auto simp: frame_def Let_def split: option.splits)
      then show ?thesis using tr0 by auto
    next
      case True
      obtain e1 w1 where p1: "propagate wave adj periodic = (e1, w1)"
        by (cases "propagate wave adj periodic")
      show ?thesis
      proof (cases e1)
        case (Some e)
        then have out: "res = Inl e" "arr = w1" "tr = ?tr0"
          using fr Inr True p1 by (auto simp: frame_def Let_def)
        have "total_count arr = 0" if "e = Contradiction"
          using propagate_Contradiction [of wave adj periodic w1] p1 Some that out by simp
        then show ?thesis using out tr0 by simp
      next
        case None
        then have at: "(case attempt ?rec w1 adj locH patH periodic onChoice ?tr0 of
               Done out \<Rightarrow> Some out
             | Stuck \<Rightarrow> None
             | Failed bound arr tr \<Rightarrow>
                 handler ?rec wave backtracking onBacktrack checkFeasible bound arr tr)
             = Some (res, arr, tr)"
          using fr Inr True p1 by (simp add: frame_def Let_def)
        show ?thesis
        proof (cases "attempt ?rec w1 adj locH patH periodic onChoice ?tr0")
          case (Done out)
          then have d: "attempt ?rec w1 adj locH patH periodic onChoice ?tr0 = Done (res, arr, tr)"
            using at by simp
          have a: "total_count arr = 0" if "Caught \<in> set tr"
            by (rule attempt_Done [OF d tr0 that]) (blast intro: recT)
          have b: "total_count arr = 0" if "res = Inl Contradiction"
          proof -
            have "Caught \<in> set tr \<or> total_count arr = 0"
              using d that recC
              by (auto simp: attempt_def raised_def Let_def
                  split: sum.splits prod.splits if_splits option.splits)
            then show ?thesis using a by blast
          qed
          show ?thesis using a b by blast
        next
          case Stuck
          then show ?thesis using at by simp
        next
          case (Failed bound arr1 tr1)
          have z: "total_count arr1 = 0"
            by (rule attempt_Failed [OF Failed assms(1,2) Suc.prems(2)]) (blast intro: recC)
          have "handler ?rec wave backtracking onBacktrack checkFeasible bound arr1 tr1
                  = Some (res, arr, tr)"
            using at Failed by simp
          then have "arr = arr1" by (rule handler_arr)
          then show ?thesis using z by simp
        qed
      qed
    qed
  qed
qed

lemma calls_of_simps [simp]:
  "calls_of name [] = []"
  "calls_of name (Called n c # tr) = (if n = name then Called n c # calls_of name tr else calls_of name tr)"
  "calls_of name (Enter w # tr) = calls_of name tr"
  "calls_of name (Commit p i j # tr) = calls_of name tr"
  "calls_of name (Caught # tr) = calls_of name tr"
  "calls_of name (tr @ tr') = calls_of name tr @ calls_of name tr'"
  by (simp_all add: calls_of_def)








lemma announced_single: "\<not> is_commit e \<Longrightarrow> announced name [e]"
  by (cases e) (simp_all add: is_commit_def)


















lemma propagate_None: "propagate wave adj periodic = (None, arr) \<Longrightarrow> 0 < total_count arr"
  by (auto simp: propagate_def Let_def split: if_splits)

lemma lexicalLocationHeuristic_quiet: "lexicalLocationHeuristic w \<noteq> Inl Contradiction"
  by (auto simp: lexicalLocationHeuristic_def argmin_def Let_def split: list.splits sum.splits)

lemma lexicalPatternHeuristic_quiet: "lexicalPatternHeuristic ws \<noteq> Inl Contradiction"
  by (auto simp: lexicalPatternHeuristic_def split: list.splits)

section \<open>Claims about the hooks of run\<close>




text \<open>
  C5.  The claim is that a supplied \<open>checkFeasible\<close> hook is evaluated at the top of
  every frame and that \<open>run\<close> raises Contradiction when it returns false.  The code does
  so in the top-level frame only.  The call in the \<open>try\<close> block passes no hook: with the
  hook \<open>wave.sum() >= 4\<close> a frame is entered on a wave with three true entries, which the
  hook rejects, and \<open>run\<close> returns a grid.  The call in the \<open>except\<close> clause passes
  \<open>checkFeasible\<close> as the eighth positional argument, the parameter \<open>onChoice\<close>: with the
  hook \<open>wave.sum() >= 36\<close> the frame entered after the backtrack starts on a wave with 35
  true entries, is not checked, and calls the hook with \<open>(2, 0, 0)\<close>, which raises
  TypeError.
\<close>

theorem check_feasible_not_forwarded:
  "run 2 (ones 2 1 2) free_adj lexicalLocationHeuristic lexicalPatternHeuristic False False
     None None (Some (feasible_hook 4))
   = Some (Inr [[0, 0]], [[[True, True]], [[False, False]]],
       [Enter [[[True, True]], [[True, True]]],
        Called ''checkFeasible'' (CallWave [[[True, True]], [[True, True]]]),
        Commit 0 0 0, Enter [[[True, True]], [[False, True]]], Commit 0 0 1]) \<and>
   behave (feasible_hook 4) (CallWave [[[True, True]], [[False, True]]]) = Inr False \<and>
   map_option (\<lambda>out. (fst out, hook_log (snd (snd out))))
     (run 2 (ones 3 3 4) test_adj lexicalLocationHeuristic lexicalPatternHeuristic True True
        None None (Some (feasible_hook 36)))
   = Some (Inl TypeError,
       [Called ''checkFeasible'' (CallWave (ones 3 3 4)),
        Called ''checkFeasible'' (CallChoice 2 0 0)]) \<and>
   behave (feasible_hook 36) (CallWave (set_entry (ones 3 3 4) 0 0 0 False)) = Inr False"
  by code_simp

section \<open>Claims about the caller's array\<close>

lemma calm_quiet: "calm ho \<Longrightarrow> quiet ho"
  by (auto simp: calm_def quiet_def split: option.splits) (metis sum.distinct(1))

lemma length_mul: "length (mul wave s) = length wave"
  by (simp add: mul_def length_bcast)

lemma length_multiply_all: "length (snd (multiply_all wave ss)) = length wave"
  by (induction ss arbitrary: wave) (simp_all add: length_mul)

lemma length_sweep: "length (sweep wave adj periodic) = length wave"
  by (simp add: sweep_def pass_def Let_def length_multiply_all split: sum.splits)

lemma length_tighten: "length (snd (tighten wave c adj periodic)) = length wave"
proof (induction wave c adj periodic rule: tighten.induct)
  case (1 wave last_count adj periodic)
  show ?case
  proof (cases "fst (pass wave adj periodic) \<noteq> None \<or>
                total_count (sweep wave adj periodic) = last_count")
    case True
    then have "tighten wave last_count adj periodic = pass wave adj periodic"
      using tighten_unfold [of wave last_count adj periodic] by auto
    then show ?thesis using length_sweep [of wave adj periodic] by (simp add: sweep_def)
  next
    case False
    then have "tighten wave last_count adj periodic =
        tighten (sweep wave adj periodic) (total_count (sweep wave adj periodic)) adj periodic"
      using tighten_unfold [of wave last_count adj periodic] by simp
    then show ?thesis using "1.IH" False length_sweep [of wave adj periodic] by simp
  qed
qed

lemma length_propagate: "length (snd (propagate wave adj periodic)) = length wave"
  by (simp add: propagate_snd length_tighten)

lemma total_propagate_le: "total_count (snd (propagate wave adj periodic)) \<le> total_count wave"
  by (simp add: propagate_snd tighten_total_le)

lemma ends_with_refl: "ends_with tr tr"
  by (auto simp: ends_with_def)

lemma ends_with_Cons: "ends_with tr tr' \<Longrightarrow> ends_with (e # tr) tr'"
  by (auto simp: ends_with_def intro: exI [of _ "e # _"])

lemma ends_with_append: "ends_with tr tr' \<Longrightarrow> ends_with (pre @ tr) tr'"
  by (auto simp: ends_with_def intro: exI [of _ "pre @ _"])

lemma attempt_Done_caught:
  assumes "attempt rec wave adj locH patH periodic onChoice tr0 = Done (res, arr, tr)"
    and "Caught \<notin> set tr0" and "Caught \<in> set tr"
  shows "\<exists>w3 tr'. rec w3 None None = Some (res, arr, tr') \<and> Caught \<in> set tr' \<and>
           ends_with tr tr'"
  using assms
  apply (auto simp: attempt_def raised_def Let_def
      split: sum.splits prod.splits if_splits option.splits)
     apply (rule exI, rule exI, rule conjI, assumption,
        simp add: ends_with_append ends_with_Cons ends_with_refl)+
  done

lemma attempt_Failed_shape:
  assumes "attempt rec wave adj locH patH periodic onChoice tr0 = Failed b arr tr"
    and "\<And>w. locH w \<noteq> Inl Contradiction" and "\<And>ws. patH ws \<noteq> Inl Contradiction"
    and "quiet onChoice"
  shows "\<exists>p i j mid rest. b = Some (p, i, j) \<and> p < length wave \<and>
           tr = tr0 @ mid @ Commit p i j # rest \<and> (\<forall>e \<in> set mid. is_called e) \<and>
           Caught \<in> set rest"
proof (cases "observe wave locH patH")
  case (Inl e)
  then have "e \<noteq> Contradiction"
    using assms(2,3) by (auto simp: observe_def split: sum.splits prod.splits if_splits)
  then show ?thesis using assms(1) Inl by (simp add: attempt_def raised_def)
next
  case (Inr pij)
  obtain p i j where pij: "pij = (p, i, j)" by (cases pij)
  let ?mid = "case onChoice of None \<Rightarrow> []
                | Some hk \<Rightarrow> [Called (label hk) (CallChoice p i j)]"
  have mid: "\<forall>e \<in> set ?mid. is_called e"
    by (auto simp: is_called_def split: option.splits)
  have hook: "\<exists>v. (case onChoice of None \<Rightarrow> Inr False
                   | Some hk \<Rightarrow> behave hk (CallChoice p i j)) = Inr v \<or>
              (\<exists>e. e \<noteq> Contradiction \<and> (case onChoice of None \<Rightarrow> Inr False
                   | Some hk \<Rightarrow> behave hk (CallChoice p i j)) = Inl e)"
    using assms(4)
    by (cases "case onChoice of None \<Rightarrow> Inr False | Some hk \<Rightarrow> behave hk (CallChoice p i j)")
       (auto simp: quiet_def split: option.splits)
  have len: "length (set_cell wave i j False) = length wave" by (simp add: set_cell_def)
  have "p < length wave \<and> (\<exists>rest. tr = (tr0 @ ?mid) @ Commit p i j # rest \<and> Caught \<in> set rest)"
    using assms(1) Inr pij hook len
    by (auto simp: attempt_def raised_def Let_def
        split: sum.splits prod.splits if_splits option.splits)
  then obtain rest where r: "p < length wave" "tr = tr0 @ ?mid @ Commit p i j # rest"
    "Caught \<in> set rest" by auto
  have "b = Some (p, i, j)"
    using assms(1) Inr pij hook
    by (auto simp: attempt_def raised_def Let_def
        split: sum.splits prod.splits if_splits option.splits)
  then show ?thesis using mid r by blast
qed

lemma handler_continues:
  assumes "handler rec original True onBacktrack checkFeasible (Some (p, i, j)) arr1 tr1
             = Some (res, arr, tr)"
    and "calm onBacktrack" and "p < length original"
  shows "\<exists>u arr' tr'. rec (set_entry original p i j False) checkFeasible None = Some (res, arr', tr') \<and>
           tr = tr1 @ u @ tr' \<and> arr = arr1"
proof -
  let ?u = "case onBacktrack of None \<Rightarrow> [] | Some hk \<Rightarrow> [Called (label hk) CallUnit]"
  obtain v where "(case onBacktrack of None \<Rightarrow> Inr False | Some hk \<Rightarrow> behave hk CallUnit) = Inr v"
    using assms(2) by (auto simp: calm_def split: option.splits)
  then have "\<exists>arr' tr'. rec (set_entry original p i j False) checkFeasible None = Some (res, arr', tr') \<and>
           tr = (tr1 @ ?u) @ tr' \<and> arr = arr1"
    using assms(1,3)
    by (auto simp: handler_def Let_def split: option.splits prod.splits)
  then show ?thesis by auto
qed


lemma caught_frame_append: "caught_frame w0 p i j pre \<Longrightarrow> caught_frame w0 p i j (a @ pre)"
proof -
  assume "caught_frame w0 p i j pre"
  then obtain b mid rest where "pre = b @ Enter w0 # mid @ Commit p i j # rest"
    "\<forall>e \<in> set mid. is_called e" "Caught \<in> set rest"
    unfolding caught_frame_def by blast
  then have "a @ pre = (a @ b) @ Enter w0 # mid @ Commit p i j # rest \<and>
    (\<forall>e \<in> set mid. is_called e) \<and> Caught \<in> set rest" by simp
  then show ?thesis unfolding caught_frame_def by blast
qed

lemma run_continues:
  assumes "\<And>w. locH w \<noteq> Inl Contradiction" and "\<And>ws. patH ws \<noteq> Inl Contradiction"
    and "calm onBacktrack"
  shows "run fuel wave adj locH patH periodic True onBacktrack onChoice checkFeasible
           = Some (res, arr, tr) \<Longrightarrow> Caught \<in> set tr \<Longrightarrow> quiet onChoice \<Longrightarrow>
         \<exists>k w0 p i j oc arr' pre tr'.
            k < fuel \<and> 0 < total_count w0 \<and> tr = pre @ tr' \<and> caught_frame w0 p i j pre \<and>
            run k (set_entry w0 p i j False) adj locH patH periodic True onBacktrack oc None
              = Some (res, arr', tr')"
proof (induction fuel arbitrary: wave onChoice checkFeasible res arr tr)
  case 0
  then show ?case by simp
next
  case (Suc fuel)
  let ?rec = "\<lambda>wave onChoice checkFeasible.
      run fuel wave adj locH patH periodic True onBacktrack onChoice checkFeasible"
  let ?pre0 = "case checkFeasible of None \<Rightarrow> []
                | Some hk \<Rightarrow> [Called (label hk) (CallWave wave)]"
  let ?tr0 = "case checkFeasible of None \<Rightarrow> [Enter wave]
                | Some hk \<Rightarrow> [Enter wave, Called (label hk) (CallWave wave)]"
  have tr0: "Caught \<notin> set ?tr0" "?tr0 = Enter wave # ?pre0" "\<forall>e \<in> set ?pre0. is_called e"
    by (auto simp: is_called_def split: option.splits)
  from Suc.prems(1)
  have fr: "frame ?rec wave adj locH patH periodic True onBacktrack onChoice checkFeasible
          = Some (res, arr, tr)" by simp
  obtain e1 w1 where p1: "propagate wave adj periodic = (e1, w1)"
    by (cases "propagate wave adj periodic")
  have early: "tr = ?tr0"
    if "(\<exists>e. (case checkFeasible of None \<Rightarrow> Inr True | Some hk \<Rightarrow> behave hk (CallWave wave)) = Inl e)
         \<or> (case checkFeasible of None \<Rightarrow> Inr True | Some hk \<Rightarrow> behave hk (CallWave wave)) = Inr False
         \<or> e1 \<noteq> None"
    using that fr p1 by (auto simp: frame_def Let_def split: option.splits sum.splits if_splits)
  have ne: "tr \<noteq> ?tr0" using tr0(1) Suc.prems(2) by auto
  have cont: "(case checkFeasible of None \<Rightarrow> Inr True | Some hk \<Rightarrow> behave hk (CallWave wave)) = Inr True"
    "e1 = None"
  proof -
    show "e1 = None" using early ne by blast
    show "(case checkFeasible of None \<Rightarrow> Inr True | Some hk \<Rightarrow> behave hk (CallWave wave)) = Inr True"
    proof (cases "case checkFeasible of None \<Rightarrow> Inr True | Some hk \<Rightarrow> behave hk (CallWave wave)")
      case (Inl e)
      then show ?thesis using early ne by blast
    next
      case (Inr v)
      then show ?thesis using early ne by (cases v) auto
    qed
  qed
  have at: "(case attempt ?rec w1 adj locH patH periodic onChoice ?tr0 of
               Done out \<Rightarrow> Some out
             | Stuck \<Rightarrow> None
             | Failed bound arr tr \<Rightarrow>
                 handler ?rec wave True onBacktrack checkFeasible bound arr tr)
             = Some (res, arr, tr)"
    using fr cont p1 by (simp add: frame_def Let_def)
  have w1: "length w1 = length wave" "0 < total_count w1" "total_count w1 \<le> total_count wave"
    using p1 cont(2) length_propagate [of wave adj periodic]
      total_propagate_le [of wave adj periodic] propagate_None [of wave adj periodic w1]
    by simp_all
  show ?case
  proof (cases "attempt ?rec w1 adj locH patH periodic onChoice ?tr0")
    case (Done out)
    then have d: "attempt ?rec w1 adj locH patH periodic onChoice ?tr0 = Done (res, arr, tr)"
      using at by simp
    obtain w3 tr3 where r3: "?rec w3 None None = Some (res, arr, tr3)" "Caught \<in> set tr3"
      "ends_with tr tr3"
      using attempt_Done_caught [OF d tr0(1) Suc.prems(2)] by blast
    obtain k w0 p i j oc arr' pre tr' where ih:
      "k < fuel" "0 < total_count w0" "tr3 = pre @ tr'" "caught_frame w0 p i j pre"
      "run k (set_entry w0 p i j False) adj locH patH periodic True onBacktrack oc None
         = Some (res, arr', tr')"
      using Suc.IH [OF r3(1,2)] by (auto simp: quiet_def)
    obtain a where "tr = a @ tr3" using r3(3) unfolding ends_with_def by blast
    then have "tr = (a @ pre) @ tr'" "caught_frame w0 p i j (a @ pre)"
      using ih(3,4) by (simp_all add: caught_frame_append)
    then show ?thesis using ih(1,2,5) less_SucI by blast
  next
    case Stuck
    then show ?thesis using at by simp
  next
    case (Failed b arr1 tr1)
    obtain p i j mid rest where f: "b = Some (p, i, j)" "p < length w1"
      "tr1 = ?tr0 @ mid @ Commit p i j # rest" "\<forall>e \<in> set mid. is_called e" "Caught \<in> set rest"
      using attempt_Failed_shape [OF Failed assms(1,2) Suc.prems(3)] by blast
    have h: "handler ?rec wave True onBacktrack checkFeasible (Some (p, i, j)) arr1 tr1
               = Some (res, arr, tr)"
      using at Failed f(1) by simp
    obtain u arr' tr' where c:
      "?rec (set_entry wave p i j False) checkFeasible None = Some (res, arr', tr')"
      "tr = tr1 @ u @ tr'"
      using handler_continues [OF h assms(3)] f(2) w1(1) by auto
    have "tr1 @ u = [] @ Enter wave # (?pre0 @ mid) @ Commit p i j # (rest @ u)"
      using f(3) tr0(2) by simp
    moreover have "\<forall>e \<in> set (?pre0 @ mid). is_called e" using tr0(3) f(4) by auto
    moreover have "Caught \<in> set (rest @ u)" using f(5) by simp
    ultimately have "caught_frame wave p i j (tr1 @ u)"
      unfolding caught_frame_def by blast
    moreover have "tr = (tr1 @ u) @ tr'" using c(2) by simp
    moreover have "0 < total_count wave" using w1(2,3) by simp
    ultimately show ?thesis using c(1) by blast
  qed
qed

text \<open>
  C9.  With backtracking, when a Contradiction has been caught the array that the caller
  passed in is left in the failed state, without a true entry, and is not restored:
  the run goes on in a copy.  Some frame of the run was entered with an array content
  \<open>w0\<close> that had true entries, committed a choice \<open>(p, i, j)\<close> and caught the
  Contradiction; from there the trace and the result of the whole run are the trace and
  the result of \<open>run\<close> on the copy of \<open>w0\<close> with the entry \<open>(p, i, j)\<close> cleared, whose
  own array is not the caller's.  The heuristics and the hooks \<open>onChoice\<close> and
  \<open>checkFeasible\<close> are taken not to raise Contradiction themselves, and \<open>onBacktrack\<close>
  to return.
\<close>

theorem run_backtrack_continues_on_copy:
  assumes "run fuel wave adj locH patH periodic True onBacktrack onChoice checkFeasible
             = Some (res, arr, tr)"
    and "Caught \<in> set tr"
    and "\<And>w. locH w \<noteq> Inl Contradiction" and "\<And>ws. patH ws \<noteq> Inl Contradiction"
    and "calm onBacktrack" and "quiet onChoice" and "quiet checkFeasible"
  shows "total_count arr = 0 \<and>
         (\<exists>k w0 p i j oc arr' pre tr'.
            k < fuel \<and> 0 < total_count w0 \<and> tr = pre @ tr' \<and> caught_frame w0 p i j pre \<and>
            run k (set_entry w0 p i j False) adj locH patH periodic True onBacktrack oc None
              = Some (res, arr', tr'))"
proof -
  have "total_count arr = 0"
    using run_caught_invariant [OF assms(3,4) calm_quiet [OF assms(5)] assms(1,6,7)] assms(2)
    by blast
  then show ?thesis
    using run_continues [OF assms(3,4,5,1,2,6)] by blast
qed

theorem run_backtrack_continues_on_copy_witness:
  "Caught \<in> set (snd (snd (the
     (run 2 (ones 3 3 4) test_adj lexicalLocationHeuristic lexicalPatternHeuristic True True
        (Some (log_hook ''onBacktrack'')) (Some (log_hook ''onChoice'')) None)))) \<and>
   calm (Some (log_hook ''onBacktrack'')) \<and> quiet (Some (log_hook ''onChoice'')) \<and> quiet None \<and>
   fst (the
     (run 2 (ones 3 3 4) test_adj lexicalLocationHeuristic lexicalPatternHeuristic True True
        (Some (log_hook ''onBacktrack'')) (Some (log_hook ''onChoice'')) None))
     = Inr [[2, 2, 2, 2], [2, 2, 2, 2], [2, 2, 2, 2]] \<and>
   total_count (fst (snd (the
     (run 2 (ones 3 3 4) test_adj lexicalLocationHeuristic lexicalPatternHeuristic True True
        (Some (log_hook ''onBacktrack'')) (Some (log_hook ''onChoice'')) None)))) = 0 \<and>
   map_option fst
     (run 1 (set_entry (ones 3 3 4) 0 0 0 False) test_adj lexicalLocationHeuristic
        lexicalPatternHeuristic True True (Some (log_hook ''onBacktrack'')) None None)
     = Some (Inr [[2, 2, 2, 2], [2, 2, 2, 2], [2, 2, 2, 2]])"
proof -
  let ?r = "run 2 (ones 3 3 4) test_adj lexicalLocationHeuristic lexicalPatternHeuristic True True
        (Some (log_hook ''onBacktrack'')) (Some (log_hook ''onChoice'')) None"
  have "?r \<noteq> None" by code_simp
  then obtain res arr tr where r: "?r = Some (res, arr, tr)" by (cases ?r) auto
  have c: "Caught \<in> set (snd (snd (the ?r)))" by code_simp
  have g: "fst (the ?r) = Inr [[2, 2, 2, 2], [2, 2, 2, 2], [2, 2, 2, 2]]" by code_simp
  have q: "calm (Some (log_hook ''onBacktrack''))" "quiet (Some (log_hook ''onChoice''))"
    "quiet None"
    by (auto simp: calm_def quiet_def log_hook_def)
  have "total_count arr = 0"
    using run_backtrack_continues_on_copy [OF r _ lexicalLocationHeuristic_quiet
        lexicalPatternHeuristic_quiet q] c r by simp
  moreover have "map_option fst
     (run 1 (set_entry (ones 3 3 4) 0 0 0 False) test_adj lexicalLocationHeuristic
        lexicalPatternHeuristic True True (Some (log_hook ''onBacktrack'')) None None)
     = Some (Inr [[2, 2, 2, 2], [2, 2, 2, 2], [2, 2, 2, 2]])"
    by code_simp
  ultimately show ?thesis using c g q r by simp
qed

end
